theory Spec2Isabelle
  imports Complex_Main "HOL-Library.Option_ord"
begin

section \<open>Account scheduler (accounts.ts)\<close>

text \<open>
  Timestamps are JavaScript numbers holding integer milliseconds (\<^verbatim>\<open>Date.now()\<close>); they are
  modelled as \<^typ>\<open>int\<close>. The quota fraction is a number between 0 and 1; it is modelled as
  \<^typ>\<open>rat\<close>, and the comparison \<^verbatim>\<open><=\<close> (which is exact on numbers) as the order of
  \<^typ>\<open>rat\<close>. An optional field \<^verbatim>\<open>f?: T\<close> is a field of type \<open>T option\<close>, with \<open>None\<close>
  for \<^verbatim>\<open>undefined\<close>.
\<close>

record imageQuota =
  remainingFraction :: rat
  resetTime :: "string option"
  updatedAt :: int

record account =
  email :: string
  refreshToken :: string
  accessToken :: "string option"
  projectId :: "string option"
  managedProjectId :: "string option"
  lastUsed :: "int option"
  rateLimitedUntil :: "int option"
  cachedImageQuota :: "imageQuota option"

record accountsConfig =
  accounts :: "account list"

definition MAX_RETRIES :: nat where
  "MAX_RETRIES = 3"

definition RATE_LIMIT_COOLDOWN_MS :: int where
  "RATE_LIMIT_COOLDOWN_MS = 5 * 60 * 1000"

definition SOFT_QUOTA_THRESHOLD :: rat where
  "SOFT_QUOTA_THRESHOLD = 1 / 10"

definition QUOTA_CACHE_TTL_MS :: int where
  "QUOTA_CACHE_TTL_MS = 5 * 60 * 1000"

text \<open>
  \<^verbatim>\<open>v || d\<close> on an optional number: \<^verbatim>\<open>undefined\<close> and \<^verbatim>\<open>0\<close> are both falsy and give \<open>d\<close>.
\<close>

definition num_or :: "int option \<Rightarrow> int \<Rightarrow> int" where
  "num_or v d = (case v of None \<Rightarrow> d | Some x \<Rightarrow> if x = 0 then d else x)"

text \<open>
  \<^verbatim>\<open>isSoftQuotaExceeded\<close> reads the wall clock itself (\<^verbatim>\<open>Date.now()\<close>); the reading is the
  explicit argument \<open>clock\<close>. It is not the \<^verbatim>\<open>now\<close> argument of \<^verbatim>\<open>selectAccount\<close>.
\<close>

definition isSoftQuotaExceeded :: "int \<Rightarrow> account \<Rightarrow> bool" where
  "isSoftQuotaExceeded clock a =
     (case cachedImageQuota a of
        None \<Rightarrow> False
      | Some quota \<Rightarrow>
          if clock - updatedAt quota > QUOTA_CACHE_TTL_MS then False
          else remainingFraction quota \<le> SOFT_QUOTA_THRESHOLD)"

text \<open>
  The guard \<^verbatim>\<open>a.rateLimitedUntil && a.rateLimitedUntil > now\<close>: the left operand is falsy
  when the field is absent or is 0.
\<close>

definition cooldownSkip :: "account \<Rightarrow> int \<Rightarrow> bool" where
  "cooldownSkip a now =
     (case rateLimitedUntil a of
        None \<Rightarrow> False
      | Some r \<Rightarrow> r \<noteq> 0 \<and> r > now)"

text \<open>
  The \<^verbatim>\<open>for (const a of config.accounts)\<close> loop of \<^verbatim>\<open>selectAccount\<close>, with the two arrays
  \<^verbatim>\<open>available\<close> and \<^verbatim>\<open>softQuotaExceeded\<close> as accumulators; \<^verbatim>\<open>push\<close> appends at the end.
\<close>

fun partitionLoop ::
  "int \<Rightarrow> string list \<Rightarrow> int \<Rightarrow> account list \<Rightarrow> account list \<Rightarrow> account list
     \<Rightarrow> account list \<times> account list" where
  "partitionLoop clock excludeEmails now [] available softQuotaExceeded =
     (available, softQuotaExceeded)"
| "partitionLoop clock excludeEmails now (a # rest) available softQuotaExceeded =
     (if email a \<in> set excludeEmails then
        partitionLoop clock excludeEmails now rest available softQuotaExceeded
      else if cooldownSkip a now then
        partitionLoop clock excludeEmails now rest available softQuotaExceeded
      else if isSoftQuotaExceeded clock a then
        partitionLoop clock excludeEmails now rest available (softQuotaExceeded @ [a])
      else
        partitionLoop clock excludeEmails now rest (available @ [a]) softQuotaExceeded)"

definition lastUsedKey :: "account \<Rightarrow> int" where
  "lastUsedKey a = num_or (lastUsed a) 0"

text \<open>
  \<^verbatim>\<open>pool.sort((a, b) => (a.lastUsed || 0) - (b.lastUsed || 0))\<close>: the comparator orders by the
  integer key \<open>lastUsedKey\<close>, and \<^verbatim>\<open>Array.prototype.sort\<close> is stable, so the sort is the
  stable \<^const>\<open>sort_key\<close>.
\<close>

definition selectAccount ::
  "int \<Rightarrow> accountsConfig \<Rightarrow> string list \<Rightarrow> int \<Rightarrow> account option" where
  "selectAccount clock config excludeEmails now =
     (case partitionLoop clock excludeEmails now (accounts config) [] [] of
        (available, softQuotaExceeded) \<Rightarrow>
          let pool = (if length available > 0 then available else softQuotaExceeded)
          in if length pool = 0 then None
             else Some (sort_key lastUsedKey pool ! 0))"

text \<open>
  \<^verbatim>\<open>config.accounts.find((a) => a.email === email)\<close> yields the first matching record, which is
  then mutated in place; in the list model the record is addressed by its position.
\<close>

fun findIndex :: "('a \<Rightarrow> bool) \<Rightarrow> 'a list \<Rightarrow> nat option" where
  "findIndex p [] = None"
| "findIndex p (x # xs) =
     (if p x then Some 0 else map_option Suc (findIndex p xs))"

definition mutateFound ::
  "accountsConfig \<Rightarrow> string \<Rightarrow> (account \<Rightarrow> account) \<Rightarrow> accountsConfig" where
  "mutateFound config e f =
     (case findIndex (\<lambda>a. email a = e) (accounts config) of
        None \<Rightarrow> config
      | Some i \<Rightarrow> config\<lparr>accounts := (accounts config)[i := f (accounts config ! i)]\<rparr>)"

definition markUsed :: "accountsConfig \<Rightarrow> string \<Rightarrow> int \<Rightarrow> accountsConfig" where
  "markUsed config e now = mutateFound config e (\<lambda>a. a\<lparr>lastUsed := Some now\<rparr>)"

definition markRateLimited :: "accountsConfig \<Rightarrow> string \<Rightarrow> int \<Rightarrow> accountsConfig" where
  "markRateLimited config e now =
     mutateFound config e (\<lambda>a. a\<lparr>rateLimitedUntil := Some (now + RATE_LIMIT_COOLDOWN_MS)\<rparr>)"

text \<open>\<^verbatim>\<open>updateCachedQuota\<close> stamps the observation with \<^verbatim>\<open>Date.now()\<close>, the argument \<open>clock\<close>.\<close>

definition updateCachedQuota ::
  "int \<Rightarrow> accountsConfig \<Rightarrow> string \<Rightarrow> rat \<Rightarrow> string option \<Rightarrow> accountsConfig" where
  "updateCachedQuota clock config e fraction reset =
     mutateFound config e
       (\<lambda>a. a\<lparr>cachedImageQuota :=
                Some \<lparr>remainingFraction = fraction, resetTime = reset, updatedAt = clock\<rparr>\<rparr>)"

subsection \<open>The store as a heap\<close>

text \<open>
  \<^verbatim>\<open>selectAccount\<close> builds two arrays, pushes references to the account objects onto them and
  sorts one of them in place. To say what that does to \<^verbatim>\<open>config.accounts\<close> the store is also
  modelled with addresses: account objects and arrays live in a heap, an array holds references,
  and a fresh array gets the next free address. \<open>config\<close> is the address of the array
  \<^verbatim>\<open>config.accounts\<close>. The loop runs over the elements the array holds when the loop starts;
  its body never writes that array.
\<close>

type_synonym ref = nat

record heap =
  objects :: "ref \<Rightarrow> account"
  arrays :: "ref \<Rightarrow> ref list"
  nextArray :: ref

definition newArray :: "heap \<Rightarrow> ref \<times> heap" where
  "newArray h =
     (nextArray h, h\<lparr>arrays := (arrays h)(nextArray h := []), nextArray := Suc (nextArray h)\<rparr>)"

definition push :: "ref \<Rightarrow> ref \<Rightarrow> heap \<Rightarrow> heap" where
  "push arr x h = h\<lparr>arrays := (arrays h)(arr := arrays h arr @ [x])\<rparr>"

definition sortInPlace :: "ref \<Rightarrow> heap \<Rightarrow> heap" where
  "sortInPlace arr h =
     h\<lparr>arrays := (arrays h)(arr := sort_key (\<lambda>r. lastUsedKey (objects h r)) (arrays h arr))\<rparr>"

fun partitionLoopH ::
  "int \<Rightarrow> string list \<Rightarrow> int \<Rightarrow> ref \<Rightarrow> ref \<Rightarrow> ref list \<Rightarrow> heap \<Rightarrow> heap" where
  "partitionLoopH clock excludeEmails now available softQuotaExceeded [] h = h"
| "partitionLoopH clock excludeEmails now available softQuotaExceeded (a # rest) h =
     (if email (objects h a) \<in> set excludeEmails then
        partitionLoopH clock excludeEmails now available softQuotaExceeded rest h
      else if cooldownSkip (objects h a) now then
        partitionLoopH clock excludeEmails now available softQuotaExceeded rest h
      else if isSoftQuotaExceeded clock (objects h a) then
        partitionLoopH clock excludeEmails now available softQuotaExceeded rest
          (push softQuotaExceeded a h)
      else
        partitionLoopH clock excludeEmails now available softQuotaExceeded rest
          (push available a h))"

definition selectAccountH ::
  "int \<Rightarrow> heap \<Rightarrow> ref \<Rightarrow> string list \<Rightarrow> int \<Rightarrow> ref option \<times> heap" where
  "selectAccountH clock h config excludeEmails now =
     (case newArray h of (available, h1) \<Rightarrow>
      case newArray h1 of (softQuotaExceeded, h2) \<Rightarrow>
        let h3 = partitionLoopH clock excludeEmails now available softQuotaExceeded
                   (arrays h2 config) h2;
            pool = (if length (arrays h3 available) > 0 then available else softQuotaExceeded)
        in if length (arrays h3 pool) = 0 then (None, h3)
           else let h4 = sortInPlace pool h3 in (Some (arrays h4 pool ! 0), h4))"

text \<open>The store as a caller reads it: the records of \<^verbatim>\<open>config.accounts\<close>, in order.\<close>

definition storeView :: "heap \<Rightarrow> ref \<Rightarrow> accountsConfig" where
  "storeView h config = \<lparr>accounts = map (objects h) (arrays h config)\<rparr>"

text \<open>The heap after the two allocations, after the loop, and the address of the chosen pool.\<close>

definition twoArrays :: "heap \<Rightarrow> heap" where
  "twoArrays h = snd (newArray (snd (newArray h)))"

definition partitioned :: "int \<Rightarrow> heap \<Rightarrow> ref \<Rightarrow> string list \<Rightarrow> int \<Rightarrow> heap" where
  "partitioned clock h config ex now =
     partitionLoopH clock ex now (nextArray h) (Suc (nextArray h)) (arrays h config) (twoArrays h)"

definition poolRef :: "int \<Rightarrow> heap \<Rightarrow> ref \<Rightarrow> string list \<Rightarrow> int \<Rightarrow> ref" where
  "poolRef clock h config ex now =
     (if length (arrays (partitioned clock h config ex now) (nextArray h)) > 0
      then nextArray h else Suc (nextArray h))"

subsection \<open>Vocabulary of the scheduler's properties\<close>

text \<open>
  A credential is eligible when the loop of \<^verbatim>\<open>selectAccount\<close> does not skip it. The two pools
  are what the loop collects in \<^verbatim>\<open>available\<close> and \<^verbatim>\<open>softQuotaExceeded\<close>.
\<close>

definition eligible :: "string list \<Rightarrow> int \<Rightarrow> account \<Rightarrow> bool" where
  "eligible excludeEmails now a \<longleftrightarrow> email a \<notin> set excludeEmails \<and> \<not> cooldownSkip a now"

definition headroomPool :: "int \<Rightarrow> string list \<Rightarrow> int \<Rightarrow> accountsConfig \<Rightarrow> account list" where
  "headroomPool clock ex now config =
     filter (\<lambda>a. eligible ex now a \<and> \<not> isSoftQuotaExceeded clock a) (accounts config)"

definition softExceededPool :: "int \<Rightarrow> string list \<Rightarrow> int \<Rightarrow> accountsConfig \<Rightarrow> account list" where
  "softExceededPool clock ex now config =
     filter (\<lambda>a. eligible ex now a \<and> isSoftQuotaExceeded clock a) (accounts config)"

text \<open>The cooldown test in the words of the specification: \<open>rateLimitedUntil > now\<close>.\<close>

definition cooldownActive :: "account \<Rightarrow> int \<Rightarrow> bool" where
  "cooldownActive a now = (case rateLimitedUntil a of None \<Rightarrow> False | Some r \<Rightarrow> r > now)"

text \<open>
  Position \<open>i\<close> holds the first entry of \<open>xs\<close> whose key is least: no entry has a smaller key,
  and every earlier entry has a strictly larger one.
\<close>

definition isFirstMin :: "('a \<Rightarrow> 'k::linorder) \<Rightarrow> 'a list \<Rightarrow> nat \<Rightarrow> bool" where
  "isFirstMin f xs i \<longleftrightarrow>
     i < length xs \<and> (\<forall>j < length xs. f (xs ! i) \<le> f (xs ! j)) \<and> (\<forall>j < i. f (xs ! i) < f (xs ! j))"

fun firstMinBy :: "('a \<Rightarrow> 'k::linorder) \<Rightarrow> 'a list \<Rightarrow> 'a option" where
  "firstMinBy f [] = None"
| "firstMinBy f (x # xs) =
     (case firstMinBy f xs of
        None \<Rightarrow> Some x
      | Some y \<Rightarrow> if f x \<le> f y then Some x else Some y)"


subsection \<open>Stores of the test suite\<close>

text \<open>\<^verbatim>\<open>makeConfig\<close> of the tests builds accounts with an email and a token and nothing else.\<close>

definition newAccount :: "string \<Rightarrow> account" where
  "newAccount e =
     \<lparr>email = e, refreshToken = ''token'', accessToken = None, projectId = None,
      managedProjectId = None, lastUsed = None, rateLimitedUntil = None,
      cachedImageQuota = None\<rparr>"

definition lowQuota :: "int \<Rightarrow> imageQuota" where
  "lowQuota t = \<lparr>remainingFraction = 1 / 20, resetTime = None, updatedAt = t\<rparr>"

definition cfgNeverUsed :: accountsConfig where
  "cfgNeverUsed = \<lparr>accounts =
     [(newAccount ''user1'')\<lparr>lastUsed := Some 100\<rparr>,
      newAccount ''user2'',
      (newAccount ''user3'')\<lparr>lastUsed := Some 200\<rparr>]\<rparr>"

definition cfgLowQuota :: accountsConfig where
  "cfgLowQuota = \<lparr>accounts =
     [(newAccount ''user1'')\<lparr>cachedImageQuota := Some (lowQuota 940000)\<rparr>,
      (newAccount ''user2'')\<lparr>lastUsed := Some 999000\<rparr>]\<rparr>"


definition cfgLastResort :: accountsConfig where
  "cfgLastResort = \<lparr>accounts =
     [(newAccount ''user1'')\<lparr>cachedImageQuota := Some (lowQuota 940000)\<rparr>,
      (newAccount ''user2'')\<lparr>rateLimitedUntil := Some 1060000\<rparr>]\<rparr>"

definition cfgAllLimited :: accountsConfig where
  "cfgAllLimited = \<lparr>accounts =
     [(newAccount ''user1'')\<lparr>rateLimitedUntil := Some 61000\<rparr>,
      (newAccount ''user2'')\<lparr>rateLimitedUntil := Some 61000\<rparr>]\<rparr>"

definition cfgExpired :: accountsConfig where
  "cfgExpired = \<lparr>accounts =
     [(newAccount ''user1'')\<lparr>rateLimitedUntil := Some 999\<rparr>,
      (newAccount ''user2'')\<lparr>lastUsed := Some 500\<rparr>]\<rparr>"



definition cfgTwo :: accountsConfig where
  "cfgTwo = \<lparr>accounts = [newAccount ''user1'', newAccount ''user2'']\<rparr>"

definition heapThree :: heap where
  "heapThree =
     \<lparr>objects = (\<lambda>r. if r = 0 then (newAccount ''user1'')\<lparr>lastUsed := Some 300\<rparr>
                      else if r = 1 then (newAccount ''user2'')\<lparr>lastUsed := Some 100\<rparr>
                      else (newAccount ''user3'')\<lparr>lastUsed := Some 200\<rparr>),
      arrays = (\<lambda>a. if a = 0 then [0, 1, 2] else []),
      nextArray = 1\<rparr>"

section \<open>Request executor (the endpoint loop of generateImage)\<close>

text \<open>
  The part of \<^verbatim>\<open>generateImage\<close> modelled here starts at \<^verbatim>\<open>let allRateLimited = true\<close>: the loop
  over the endpoints with its inner retry loop, and the aggregate failure after it. What comes
  before (token, project, model, request body) fixes the request and is not part of the policy.
  The network is a parameter: \<open>net\<close> gives, for the events so far and a base URL, what
  \<^verbatim>\<open>fetch\<close> does on the next call.
\<close>

definition IMAGE_GENERATION_TIMEOUT_MS :: nat where
  "IMAGE_GENERATION_TIMEOUT_MS = 120000"

definition CAPACITY_RETRY_COUNT :: nat where
  "CAPACITY_RETRY_COUNT = 3"

definition CAPACITY_RETRY_BASE_DELAY_MS :: nat where
  "CAPACITY_RETRY_BASE_DELAY_MS = 3000"

definition CLOUDCODE_FALLBACK_URLS :: "string list" where
  "CLOUDCODE_FALLBACK_URLS =
     [''https://daily-cloudcode-pa.googleapis.com'',
      ''https://daily-cloudcode-pa.sandbox.googleapis.com'',
      ''https://cloudcode-pa.googleapis.com'']"

record quotaSummary =
  remainingPercent :: rat
  quotaResetTime :: string

text \<open>
  \<^verbatim>\<open>ImageGenerationResult\<close>, without the fields the loop only copies (\<^verbatim>\<open>imagePath\<close>,
  \<^verbatim>\<open>images\<close>, \<^verbatim>\<open>_candidates\<close>).
\<close>

record imageGenerationResult =
  success :: bool
  imageData :: "string option"
  mimeType :: "string option"
  sizeBytes :: "nat option"
  error :: "string option"
  isRateLimited :: "bool option"
  isCapacityError :: "bool option"
  referenceErrors :: "string list option"
  quota :: "quotaSummary option"

text \<open>The object \<^verbatim>\<open>{ success: false, error: msg }\<close>.\<close>

definition failure :: "string \<Rightarrow> imageGenerationResult" where
  "failure msg =
     \<lparr>success = False, imageData = None, mimeType = None, sizeBytes = None,
      error = Some msg, isRateLimited = None, isCapacityError = None,
      referenceErrors = None, quota = None\<rparr>"

text \<open>
  What \<^verbatim>\<open>parseSSEResponse\<close> finds in the body of a 2xx response: an error message (an error
  record in the stream, or no image at all), or a first image with its MIME type and size.
\<close>

datatype sseParse = SseError string | SseImage string string nat

fun parseSSEResponse :: "sseParse \<Rightarrow> imageGenerationResult" where
  "parseSSEResponse (SseError msg) = failure msg"
| "parseSSEResponse (SseImage d m n) =
     (failure [])\<lparr>success := True, imageData := Some d, mimeType := Some m,
                    sizeBytes := Some n, error := None\<rparr>"

text \<open>
  What one \<^verbatim>\<open>fetch\<close> does: a response that is not ok (status and body text), an ok response,
  an abort by the timeout, or another thrown error.
\<close>

datatype fetchOutcome =
    HttpError nat string
  | HttpOk sseParse
  | Aborted
  | Thrown string

fun string_of_nat :: "nat \<Rightarrow> string" where
  "string_of_nat n =
     (if n < 10 then [char_of (48 + n)]
      else string_of_nat (n div 10) @ [char_of (48 + n mod 10)])"

declare string_of_nat.simps [simp del]

record attemptResponse =
  status :: nat
  result :: imageGenerationResult

fun attemptGeneration :: "fetchOutcome \<Rightarrow> attemptResponse" where
  "attemptGeneration (HttpError st errorText) =
     \<lparr>status = st,
      result = (failure (''HTTP '' @ string_of_nat st @ '': '' @ take 300 errorText))
                 \<lparr>isRateLimited := Some (st = 429), isCapacityError := Some (st = 503)\<rparr>\<rparr>"
| "attemptGeneration (HttpOk body) = \<lparr>status = 200, result = parseSSEResponse body\<rparr>"
| "attemptGeneration Aborted =
     \<lparr>status = 0,
      result = failure (''Timeout after ''
                 @ string_of_nat (IMAGE_GENERATION_TIMEOUT_MS div 1000) @ ''s'')\<rparr>"
| "attemptGeneration (Thrown msg) = \<lparr>status = 0, result = failure msg\<rparr>"

text \<open>
  The events of one call, in order: a \<^verbatim>\<open>sleep\<close> with its delay in milliseconds, or an attempt
  against a base URL with the status it came back with.
\<close>

datatype event = Sleep nat | Attempt string nat

record execEnv =
  net :: "event list \<Rightarrow> string \<Rightarrow> fetchOutcome"
  quotaLookup :: "quotaSummary option"
  refErrors :: "string list"

text \<open>The three local variables of the loop, and the events so far.\<close>

record execState =
  allRateLimited :: bool
  allCapacity :: bool
  lastError :: string
  trace :: "event list"

text \<open>Truthiness of an optional string, and \<^verbatim>\<open>v || d\<close> on one: the empty string is falsy.\<close>

definition truthyStr :: "string option \<Rightarrow> bool" where
  "truthyStr v = (case v of None \<Rightarrow> False | Some s \<Rightarrow> s \<noteq> [])"

definition strOr :: "string option \<Rightarrow> string \<Rightarrow> string" where
  "strOr v d = (case v of None \<Rightarrow> d | Some s \<Rightarrow> if s = [] then d else s)"

definition sleep :: "nat \<Rightarrow> execState \<Rightarrow> execState" where
  "sleep ms s = s\<lparr>trace := trace s @ [Sleep ms]\<rparr>"

definition withReferenceErrors ::
  "execEnv \<Rightarrow> imageGenerationResult \<Rightarrow> imageGenerationResult" where
  "withReferenceErrors env r =
     r\<lparr>referenceErrors := (if length (refErrors env) > 0 then Some (refErrors env) else None)\<rparr>"

text \<open>
  The body of the retry loop after the sleep: one attempt and the branch taken on it. The
  branch ends the function (\<open>Return\<close>), goes on with the next retry (\<open>Continue\<close>) or leaves the
  retry loop (\<open>Break\<close>).
\<close>

datatype control = Return imageGenerationResult | Continue | Break

definition attemptStep :: "execEnv \<Rightarrow> string \<Rightarrow> execState \<Rightarrow> control \<times> execState" where
  "attemptStep env baseUrl s =
     (let r = attemptGeneration (net env (trace s) baseUrl);
          s' = s\<lparr>trace := trace s @ [Attempt baseUrl (status r)]\<rparr>
      in if success (result r) \<and> truthyStr (imageData (result r)) then
           (Return ((withReferenceErrors env (result r))\<lparr>quota := quotaLookup env\<rparr>),
            s'\<lparr>allRateLimited := False, allCapacity := False\<rparr>)
         else if status r = 503 then
           (Continue, s'\<lparr>allRateLimited := False,
                           lastError := strOr (error (result r)) ''No capacity''\<rparr>)
         else if status r = 429 then
           (Break, s'\<lparr>allCapacity := False,
                        lastError := strOr (error (result r)) ''Rate limited''\<rparr>)
         else
           (Return (withReferenceErrors env (result r)),
            s'\<lparr>allRateLimited := False, allCapacity := False\<rparr>))"

text \<open>
  \<^verbatim>\<open>for (let retry = 0; retry <= CAPACITY_RETRY_COUNT; retry++)\<close>, with the retry count and
  the base delay as arguments. The result is \<open>Some r\<close> when the function returned \<open>r\<close> from
  inside the loop, \<open>None\<close> when the loop was left.
\<close>

function retryLoop ::
  "execEnv \<Rightarrow> nat \<Rightarrow> nat \<Rightarrow> string \<Rightarrow> nat \<Rightarrow> execState
     \<Rightarrow> imageGenerationResult option \<times> execState" where
  "retryLoop env maxRetries baseDelay baseUrl retry s =
     (if retry \<le> maxRetries then
        (case attemptStep env baseUrl
                (if retry > 0 then sleep (baseDelay * 2 ^ (retry - 1)) s else s) of
           (Return r, s') \<Rightarrow> (Some r, s')
         | (Continue, s') \<Rightarrow> retryLoop env maxRetries baseDelay baseUrl (retry + 1) s'
         | (Break, s') \<Rightarrow> (None, s'))
      else (None, s))"
  by pat_completeness auto
termination
  by (relation "measure (\<lambda>(env, maxRetries, baseDelay, baseUrl, retry, s). Suc maxRetries - retry)")
    auto

declare retryLoop.simps [simp del]

text \<open>\<^verbatim>\<open>for (const baseUrl of CLOUDCODE_FALLBACK_URLS)\<close>, with the list as an argument.\<close>

fun endpointLoop ::
  "execEnv \<Rightarrow> nat \<Rightarrow> nat \<Rightarrow> string list \<Rightarrow> execState
     \<Rightarrow> imageGenerationResult option \<times> execState" where
  "endpointLoop env maxRetries baseDelay [] s = (None, s)"
| "endpointLoop env maxRetries baseDelay (baseUrl # rest) s =
     (case retryLoop env maxRetries baseDelay baseUrl 0 s of
        (Some r, s') \<Rightarrow> (Some r, s')
      | (None, s') \<Rightarrow> endpointLoop env maxRetries baseDelay rest s')"

definition initialState :: execState where
  "initialState = \<lparr>allRateLimited = True, allCapacity = True, lastError = [], trace = []\<rparr>"

text \<open>The loops and the aggregate failure that follows them; the final state keeps the events.\<close>

definition executeRequest ::
  "execEnv \<Rightarrow> nat \<Rightarrow> nat \<Rightarrow> string list \<Rightarrow> imageGenerationResult \<times> execState" where
  "executeRequest env maxRetries baseDelay urls =
     (case endpointLoop env maxRetries baseDelay urls initialState of
        (Some r, s) \<Rightarrow> (r, s)
      | (None, s) \<Rightarrow>
          ((failure (strOr (Some (lastError s)) ''All endpoints failed''))
             \<lparr>isRateLimited := Some (allRateLimited s),
               isCapacityError := Some (allCapacity s)\<rparr>, s))"

definition generateImage :: "execEnv \<Rightarrow> imageGenerationResult \<times> execState" where
  "generateImage env =
     executeRequest env CAPACITY_RETRY_COUNT CAPACITY_RETRY_BASE_DELAY_MS CLOUDCODE_FALLBACK_URLS"

subsection \<open>Vocabulary of the executor's properties\<close>

text \<open>
  The class of an attempt, read off the branch the loop takes on it. The loop does not tell a
  timeout from any other error: both are the last branch.
\<close>

datatype outcome = Success | CapacityUnavailable | RateLimited | TimeoutOrOtherError

definition classify :: "attemptResponse \<Rightarrow> outcome" where
  "classify r =
     (if success (result r) \<and> truthyStr (imageData (result r)) then Success
      else if status r = 503 then CapacityUnavailable
      else if status r = 429 then RateLimited
      else TimeoutOrOtherError)"

text \<open>The response the next attempt against \<open>baseUrl\<close> gets in state \<open>s\<close>.\<close>

definition respond :: "execEnv \<Rightarrow> execState \<Rightarrow> string \<Rightarrow> attemptResponse" where
  "respond env s baseUrl = attemptGeneration (net env (trace s) baseUrl)"

definition beforeAttempt :: "nat \<Rightarrow> nat \<Rightarrow> execState \<Rightarrow> execState" where
  "beforeAttempt baseDelay retry s =
     (if retry > 0 then sleep (baseDelay * 2 ^ (retry - 1)) s else s)"

text \<open>
  The events of an endpoint that never has capacity: a first attempt, then for each retry
  \<open>1, ..., maxRetries\<close> a sleep of \<open>baseDelay * 2 ^ (retry - 1)\<close> and another attempt.
\<close>

definition backoffSchedule :: "nat \<Rightarrow> string \<Rightarrow> nat \<Rightarrow> event list" where
  "backoffSchedule baseDelay baseUrl maxRetries =
     Attempt baseUrl 503 #
     concat (map (\<lambda>retry. [Sleep (baseDelay * 2 ^ (retry - 1)), Attempt baseUrl 503])
                 [1..<Suc maxRetries])"

definition retriesFrom :: "nat \<Rightarrow> string \<Rightarrow> nat \<Rightarrow> nat \<Rightarrow> event list" where
  "retriesFrom baseDelay baseUrl r maxRetries =
     concat (map (\<lambda>retry. [Sleep (baseDelay * 2 ^ (retry - 1)), Attempt baseUrl 503])
                 [r..<Suc maxRetries])"

fun attemptsOn :: "string \<Rightarrow> event list \<Rightarrow> nat" where
  "attemptsOn baseUrl [] = 0"
| "attemptsOn baseUrl (Sleep ms # es) = attemptsOn baseUrl es"
| "attemptsOn baseUrl (Attempt u st # es) =
     (if u = baseUrl then Suc (attemptsOn baseUrl es) else attemptsOn baseUrl es)"

fun attemptStatuses :: "event list \<Rightarrow> nat list" where
  "attemptStatuses [] = []"
| "attemptStatuses (Sleep ms # es) = attemptStatuses es"
| "attemptStatuses (Attempt u st # es) = st # attemptStatuses es"

text \<open>
  Each flag says what all attempts so far have in common: \<open>allRateLimited\<close> that every one
  came back 429, \<open>allCapacity\<close> that every one came back 503.
\<close>

definition flagsAgree :: "execState \<Rightarrow> bool" where
  "flagsAgree s \<longleftrightarrow>
     (allRateLimited s \<longleftrightarrow> (\<forall>st \<in> set (attemptStatuses (trace s)). st = 429))
     \<and> (allCapacity s \<longleftrightarrow> (\<forall>st \<in> set (attemptStatuses (trace s)). st = 503))"

subsection \<open>Networks of the execution scenarios\<close>

definition pngImage :: fetchOutcome where
  "pngImage = HttpOk (SseImage ''aGVsbG8='' ''image/png'' 6)"

definition envE1busy :: execEnv where
  "envE1busy =
     \<lparr>net = (\<lambda>h url. if url = ''E1'' then HttpError 503 ''busy'' else pngImage),
      quotaLookup = None, refErrors = []\<rparr>"

definition envAllRateLimited :: execEnv where
  "envAllRateLimited =
     \<lparr>net = (\<lambda>h url. HttpError 429 ''quota''), quotaLookup = None, refErrors = []\<rparr>"

definition envAllBusy :: execEnv where
  "envAllBusy =
     \<lparr>net = (\<lambda>h url. HttpError 503 ''busy''), quotaLookup = None, refErrors = []\<rparr>"

definition envE1limited :: execEnv where
  "envE1limited =
     \<lparr>net = (\<lambda>h url. if url = ''E1'' then HttpError 429 ''quota'' else pngImage),
      quotaLookup = None, refErrors = []\<rparr>"

definition envE1broken :: execEnv where
  "envE1broken =
     \<lparr>net = (\<lambda>h url. if url = ''E1'' then HttpError 400 ''bad request'' else pngImage),
      quotaLookup = None, refErrors = []\<rparr>"

section \<open>Facts about the scheduler\<close>

lemma findIndex_None: "findIndex p xs = None \<longleftrightarrow> (\<forall>x \<in> set xs. \<not> p x)"
  by (induction xs) auto

lemma findIndex_Some:
  "findIndex p xs = Some i \<longleftrightarrow> i < length xs \<and> p (xs ! i) \<and> (\<forall>j < i. \<not> p (xs ! j))"
proof (induction xs arbitrary: i)
  case Nil
  then show ?case by simp
next
  case (Cons x xs)
  show ?case
  proof (cases "p x")
    case True
    then show ?thesis by (cases i) auto
  next
    case False
    show ?thesis
    proof (cases i)
      case 0
      with False show ?thesis by auto
    next
      case (Suc k)
      have "(\<forall>j<Suc k. \<not> p ((x # xs) ! j)) \<longleftrightarrow> (\<forall>j<k. \<not> p (xs ! j))"
        using False by (auto simp: less_Suc_eq_0_disj)
      with False Suc Cons.IH [of k] show ?thesis by auto
    qed
  qed
qed

lemma partitionLoop_filter:
  "partitionLoop clock ex now xs av sq =
     (av @ filter (\<lambda>a. eligible ex now a \<and> \<not> isSoftQuotaExceeded clock a) xs,
      sq @ filter (\<lambda>a. eligible ex now a \<and> isSoftQuotaExceeded clock a) xs)"
  by (induction xs arbitrary: av sq) (auto simp: eligible_def)

lemma firstMinBy_None: "firstMinBy f xs = None \<longleftrightarrow> xs = []"
  by (cases xs) (auto split: option.splits)

lemma insort_key_nth0:
  "insort_key f x ys ! 0 = (case ys of [] \<Rightarrow> x | y # _ \<Rightarrow> if f x \<le> f y then x else y)"
  by (cases ys) auto

lemma sort_key_nth0: "xs \<noteq> [] \<Longrightarrow> Some (sort_key f xs ! 0) = firstMinBy f xs"
proof (induction xs)
  case Nil
  then show ?case by simp
next
  case (Cons x xs)
  show ?case
  proof (cases "xs = []")
    case True
    then show ?thesis by simp
  next
    case False
    with Cons.IH have ih: "firstMinBy f xs = Some (sort_key f xs ! 0)" by simp
    from False have "sort_key f xs \<noteq> []"
      by (metis length_sort length_0_conv)
    then obtain y ys where ys: "sort_key f xs = y # ys"
      by (cases "sort_key f xs") auto
    with ih show ?thesis
      by (simp add: insort_key_nth0)
  qed
qed

lemma firstMinBy_isFirstMin:
  "firstMinBy f xs = Some a \<Longrightarrow> \<exists>i. isFirstMin f xs i \<and> a = xs ! i"
proof (induction xs arbitrary: a)
  case Nil
  then show ?case by simp
next
  case (Cons x xs)
  show ?case
  proof (cases "firstMinBy f xs")
    case None
    then have "xs = []" by (simp add: firstMinBy_None)
    with Cons.prems have "isFirstMin f (x # xs) 0 \<and> a = (x # xs) ! 0"
      by (simp add: isFirstMin_def)
    then show ?thesis by blast
  next
    case (Some y)
    from Cons.IH [OF Some] obtain i where i: "isFirstMin f xs i" "y = xs ! i" by blast
    show ?thesis
    proof (cases "f x \<le> f y")
      case True
      with Some Cons.prems have a: "a = x" by simp
      have "isFirstMin f (x # xs) 0"
        unfolding isFirstMin_def
      proof (intro conjI allI impI)
        fix j assume "j < length (x # xs)"
        then show "f ((x # xs) ! 0) \<le> f ((x # xs) ! j)"
          using i True by (cases j) (auto simp: isFirstMin_def intro: order_trans)
      qed simp_all
      with a show ?thesis by auto
    next
      case False
      with Some Cons.prems have a: "a = y" by simp
      have "isFirstMin f (x # xs) (Suc i)"
        unfolding isFirstMin_def
      proof (intro conjI allI impI)
        show "Suc i < length (x # xs)" using i by (simp add: isFirstMin_def)
      next
        fix j assume "j < length (x # xs)"
        then show "f ((x # xs) ! Suc i) \<le> f ((x # xs) ! j)"
          using i False by (cases j) (auto simp: isFirstMin_def)
      next
        fix j assume "j < Suc i"
        then show "f ((x # xs) ! Suc i) < f ((x # xs) ! j)"
          using i False by (cases j) (auto simp: isFirstMin_def)
      qed
      with a i show ?thesis by auto
    qed
  qed
qed


lemma selectAccount_pools:
  "selectAccount clock config ex now =
     (let available = filter (\<lambda>a. eligible ex now a \<and> \<not> isSoftQuotaExceeded clock a) (accounts config);
          softQuotaExceeded = filter (\<lambda>a. eligible ex now a \<and> isSoftQuotaExceeded clock a) (accounts config)
      in firstMinBy lastUsedKey (if available \<noteq> [] then available else softQuotaExceeded))"
  by (simp add: selectAccount_def partitionLoop_filter Let_def sort_key_nth0 firstMinBy_None)

lemma selectAccount_pools':
  "selectAccount clock config ex now =
     firstMinBy lastUsedKey
       (if headroomPool clock ex now config \<noteq> [] then headroomPool clock ex now config
        else softExceededPool clock ex now config)"
  by (simp add: selectAccount_pools headroomPool_def softExceededPool_def Let_def)


text \<open>
  The soft-quota test, written out. Freshness is measured from \<open>clock\<close>, the reading of
  \<^verbatim>\<open>Date.now()\<close> inside \<^verbatim>\<open>isSoftQuotaExceeded\<close>; the comparison with the threshold is inclusive.
\<close>

lemma isSoftQuotaExceeded_iff:
  "isSoftQuotaExceeded clock a \<longleftrightarrow>
     (\<exists>q. cachedImageQuota a = Some q \<and> clock - updatedAt q \<le> QUOTA_CACHE_TTL_MS
          \<and> remainingFraction q \<le> SOFT_QUOTA_THRESHOLD)"
  by (cases "cachedImageQuota a") (auto simp: isSoftQuotaExceeded_def)

lemma mutateFound_unknown:
  "\<forall>a \<in> set (accounts config). email a \<noteq> e \<Longrightarrow> mutateFound config e f = config"
proof -
  assume "\<forall>a \<in> set (accounts config). email a \<noteq> e"
  then have "findIndex (\<lambda>a. email a = e) (accounts config) = None"
    by (simp add: findIndex_None)
  then show ?thesis by (simp add: mutateFound_def)
qed

lemma mutateFound_known:
  assumes "findIndex (\<lambda>a. email a = e) (accounts config) = Some i"
  shows "length (accounts (mutateFound config e f)) = length (accounts config)"
    and "accounts (mutateFound config e f) ! i = f (accounts config ! i)"
    and "\<forall>j. j \<noteq> i \<longrightarrow> accounts (mutateFound config e f) ! j = accounts config ! j"
proof -
  from assms have i: "i < length (accounts config)"
    by (simp add: findIndex_Some)
  from assms have mf: "mutateFound config e f
      = config\<lparr>accounts := (accounts config)[i := f (accounts config ! i)]\<rparr>"
    by (simp add: mutateFound_def)
  show "length (accounts (mutateFound config e f)) = length (accounts config)"
    by (simp add: mf)
  from i show "accounts (mutateFound config e f) ! i = f (accounts config ! i)"
    by (simp add: mf)
  show "\<forall>j. j \<noteq> i \<longrightarrow> accounts (mutateFound config e f) ! j = accounts config ! j"
    by (simp add: mf)
qed




text \<open>
  C4. Selection is called on \<open>cfgLowQuota\<close> with reference timestamp 1000000 while the wall
  clock reads 1700000000000. The quota of the first credential was observed 60000 ms before the
  reference timestamp, within the freshness window, and its fraction 1/20 is below the
  threshold. Measured from the reference timestamp the credential is soft-exceeded;
  \<^verbatim>\<open>isSoftQuotaExceeded\<close> measures from the wall clock, finds the observation stale and puts
  the credential in the headroom pool, so Selection returns it. When the wall clock equals the
  reference timestamp Selection returns the second credential.
\<close>

theorem softQuota_reads_wall_clock:
  "cachedImageQuota (accounts cfgLowQuota ! 0) = Some (lowQuota 940000)
   \<and> 1000000 - updatedAt (lowQuota 940000) \<le> QUOTA_CACHE_TTL_MS
   \<and> remainingFraction (lowQuota 940000) \<le> SOFT_QUOTA_THRESHOLD
   \<and> \<not> isSoftQuotaExceeded 1700000000000 (accounts cfgLowQuota ! 0)
   \<and> selectAccount 1700000000000 cfgLowQuota [] 1000000 = Some (accounts cfgLowQuota ! 0)
   \<and> selectAccount 1000000 cfgLowQuota [] 1000000 = Some (accounts cfgLowQuota ! 1)"
  by code_simp

lemma selectAccount_none_guard:
  "selectAccount clock config ex now = None
     \<longleftrightarrow> (\<forall>a \<in> set (accounts config). email a \<in> set ex \<or> cooldownSkip a now)"
proof -
  have "(if headroomPool clock ex now config \<noteq> [] then headroomPool clock ex now config
         else softExceededPool clock ex now config) = []
      \<longleftrightarrow> (\<forall>a \<in> set (accounts config). \<not> eligible ex now a)"
    by (auto simp: headroomPool_def softExceededPool_def filter_empty_conv)
  then show ?thesis
    unfolding selectAccount_pools' firstMinBy_None by (auto simp: eligible_def)
qed

lemma selectAccount_some_guard:
  assumes "selectAccount clock config ex now = Some a"
  shows "a \<in> set (accounts config) \<and> email a \<notin> set ex \<and> \<not> cooldownSkip a now"
proof -
  let ?P = "if headroomPool clock ex now config \<noteq> [] then headroomPool clock ex now config
        else softExceededPool clock ex now config"
  have setP: "set ?P \<subseteq> {a \<in> set (accounts config). eligible ex now a}"
    by (auto simp: headroomPool_def softExceededPool_def)
  from assms have "firstMinBy lastUsedKey ?P = Some a"
    by (simp only: selectAccount_pools')
  from firstMinBy_isFirstMin [OF this] have "a \<in> set ?P"
    by (auto simp: isFirstMin_def)
  with setP show ?thesis
    by (auto simp: eligible_def)
qed

text \<open>
  The guard of the loop tests \<open>r \<noteq> 0 \<and> r > now\<close>. For a reference timestamp that is not
  negative this is the cooldown test \<open>r > now\<close>; the two differ only for a negative \<open>now\<close> and
  a stored 0.
\<close>

lemma cooldownSkip_active: "0 \<le> now \<Longrightarrow> cooldownSkip a now = cooldownActive a now"
  by (auto simp: cooldownSkip_def cooldownActive_def split: option.splits)

lemma cooldownSkip_neq_active:
  "cooldownSkip a now \<noteq> cooldownActive a now \<Longrightarrow> now < 0 \<and> rateLimitedUntil a = Some 0"
  by (auto simp: cooldownSkip_def cooldownActive_def split: option.splits)



text \<open>
  C5. For every reference timestamp \<open>now \<ge> 0\<close>: Selection returns none exactly when every
  credential of the store is excluded or cooldown-active (\<open>rateLimitedUntil > now\<close>). A
  returned credential is in the store, is not excluded and is not cooldown-active. A credential
  that is not excluded and has \<open>now \<ge> rateLimitedUntil\<close> is not cooldown-active and is
  eligible again: with it in the store the result is not none.
\<close>

theorem selectAccount_none_iff:
  assumes "0 \<le> now"
  shows "(selectAccount clock config ex now = None
      \<longleftrightarrow> (\<forall>a \<in> set (accounts config). email a \<in> set ex \<or> cooldownActive a now))
   \<and> (\<forall>a. selectAccount clock config ex now = Some a
          \<longrightarrow> a \<in> set (accounts config) \<and> email a \<notin> set ex \<and> \<not> cooldownActive a now)
   \<and> (\<forall>a \<in> set (accounts config). \<forall>r. email a \<notin> set ex \<and> rateLimitedUntil a = Some r \<and> now \<ge> r
          \<longrightarrow> \<not> cooldownActive a now \<and> eligible ex now a
              \<and> selectAccount clock config ex now \<noteq> None)
   \<and> (\<forall>a. cooldownActive a now \<longleftrightarrow> (\<exists>r. rateLimitedUntil a = Some r \<and> r > now))"
proof -
  have act: "cooldownSkip a now = cooldownActive a now" for a
    by (rule cooldownSkip_active [OF assms])
  have 1: "selectAccount clock config ex now = None
      \<longleftrightarrow> (\<forall>a \<in> set (accounts config). email a \<in> set ex \<or> cooldownActive a now)"
    by (simp add: selectAccount_none_guard act)
  have 2: "\<forall>a. selectAccount clock config ex now = Some a
          \<longrightarrow> a \<in> set (accounts config) \<and> email a \<notin> set ex \<and> \<not> cooldownActive a now"
    using selectAccount_some_guard [of clock config ex now] by (simp add: act)
  have 3: "\<forall>a \<in> set (accounts config). \<forall>r. email a \<notin> set ex \<and> rateLimitedUntil a = Some r \<and> now \<ge> r
          \<longrightarrow> \<not> cooldownActive a now \<and> eligible ex now a
              \<and> selectAccount clock config ex now \<noteq> None"
  proof (intro ballI allI impI)
    fix a r
    assume a: "a \<in> set (accounts config)"
      and h: "email a \<notin> set ex \<and> rateLimitedUntil a = Some r \<and> now \<ge> r"
    from h have na: "\<not> cooldownActive a now" by (simp add: cooldownActive_def)
    with h have el: "eligible ex now a" by (simp add: eligible_def act)
    from a h na have "selectAccount clock config ex now \<noteq> None"
      unfolding 1 by blast
    with na el show "\<not> cooldownActive a now \<and> eligible ex now a
              \<and> selectAccount clock config ex now \<noteq> None"
      by simp
  qed
  have 4: "\<forall>a. cooldownActive a now \<longleftrightarrow> (\<exists>r. rateLimitedUntil a = Some r \<and> r > now)"
    by (auto simp: cooldownActive_def split: option.splits)
  from 1 2 3 4 show ?thesis by blast
qed

theorem selectAccount_none_iff_witness:
  "selectAccount 1000 cfgAllLimited [] 1000 = None
   \<and> cooldownActive (accounts cfgAllLimited ! 0) 1000
   \<and> cooldownActive (accounts cfgAllLimited ! 1) 1000
   \<and> selectAccount 1000 cfgNeverUsed [''user1'', ''user2'', ''user3''] 1000 = None
   \<and> selectAccount 1000 cfgExpired [] 1000 = Some (accounts cfgExpired ! 0)
   \<and> rateLimitedUntil (accounts cfgExpired ! 0) = Some 999
   \<and> \<not> cooldownActive (accounts cfgExpired ! 0) 1000"
proof -
  have n: "(0::int) \<le> 1000" by simp
  have a: "\<forall>a \<in> set (accounts cfgAllLimited). email a \<in> set [] \<or> cooldownActive a 1000"
    by code_simp
  have b: "\<forall>a \<in> set (accounts cfgNeverUsed).
             email a \<in> set [''user1'', ''user2'', ''user3''] \<or> cooldownActive a 1000"
    by code_simp
  have c: "selectAccount 1000 cfgExpired [] 1000 = Some (accounts cfgExpired ! 0)"
    by code_simp
  have d: "cooldownActive (accounts cfgAllLimited ! 0) 1000"
    "cooldownActive (accounts cfgAllLimited ! 1) 1000"
    "rateLimitedUntil (accounts cfgExpired ! 0) = Some 999"
    by code_simp+
  from selectAccount_none_iff [OF n, of 1000 cfgAllLimited "[]"] a
  have 1: "selectAccount 1000 cfgAllLimited [] 1000 = None" by blast
  from selectAccount_none_iff [OF n, of 1000 cfgNeverUsed "[''user1'', ''user2'', ''user3'']"] b
  have 2: "selectAccount 1000 cfgNeverUsed [''user1'', ''user2'', ''user3''] 1000 = None"
    by blast
  from selectAccount_none_iff [OF n, of 1000 cfgExpired "[]"] c
  have 3: "\<not> cooldownActive (accounts cfgExpired ! 0) 1000" by blast
  from 1 2 3 c d show ?thesis by simp
qed



text \<open>
  C8. Each of \<open>markUsed\<close>, \<open>markRateLimited\<close> and \<open>updateCachedQuota\<close> leaves the store as it
  is when no record has the key. When position \<open>i\<close> holds the first record with the key, the
  store keeps its length, every record at another position is unchanged, and the record at
  \<open>i\<close> is the old one with only the target field replaced (\<open>lastUsed\<close>, \<open>rateLimitedUntil\<close>,
  \<open>cachedImageQuota\<close>). The three functions are total: the source has no throwing path, so
  the model has no error value.
\<close>

theorem recording_frame:
  "((\<forall>a \<in> set (accounts config). email a \<noteq> e) \<longrightarrow>
        markUsed config e now = config
      \<and> markRateLimited config e now = config
      \<and> updateCachedQuota clock config e fraction reset = config)
   \<and> (findIndex (\<lambda>a. email a = e) (accounts config) = Some i \<longrightarrow>
        i < length (accounts config) \<and> email (accounts config ! i) = e
      \<and> length (accounts (markUsed config e now)) = length (accounts config)
      \<and> accounts (markUsed config e now) ! i = (accounts config ! i)\<lparr>lastUsed := Some now\<rparr>
      \<and> (\<forall>j. j \<noteq> i \<longrightarrow> accounts (markUsed config e now) ! j = accounts config ! j)
      \<and> length (accounts (markRateLimited config e now)) = length (accounts config)
      \<and> accounts (markRateLimited config e now) ! i
          = (accounts config ! i)\<lparr>rateLimitedUntil := Some (now + RATE_LIMIT_COOLDOWN_MS)\<rparr>
      \<and> (\<forall>j. j \<noteq> i \<longrightarrow> accounts (markRateLimited config e now) ! j = accounts config ! j)
      \<and> length (accounts (updateCachedQuota clock config e fraction reset))
          = length (accounts config)
      \<and> accounts (updateCachedQuota clock config e fraction reset) ! i
          = (accounts config ! i)\<lparr>cachedImageQuota :=
               Some \<lparr>remainingFraction = fraction, resetTime = reset, updatedAt = clock\<rparr>\<rparr>
      \<and> (\<forall>j. j \<noteq> i \<longrightarrow>
            accounts (updateCachedQuota clock config e fraction reset) ! j = accounts config ! j))
   \<and> ((\<exists>a \<in> set (accounts config). email a = e) \<longrightarrow>
        (\<exists>k. findIndex (\<lambda>a. email a = e) (accounts config) = Some k))"
proof (intro conjI impI)
  assume u: "\<forall>a \<in> set (accounts config). email a \<noteq> e"
  show "markUsed config e now = config"
    unfolding markUsed_def by (rule mutateFound_unknown [OF u])
  show "markRateLimited config e now = config"
    unfolding markRateLimited_def by (rule mutateFound_unknown [OF u])
  show "updateCachedQuota clock config e fraction reset = config"
    unfolding updateCachedQuota_def by (rule mutateFound_unknown [OF u])
next
  assume k: "findIndex (\<lambda>a. email a = e) (accounts config) = Some i"
  then show "i < length (accounts config)" "email (accounts config ! i) = e"
    by (simp_all add: findIndex_Some)
  show "length (accounts (markUsed config e now)) = length (accounts config)"
    unfolding markUsed_def by (rule mutateFound_known(1) [OF k])
  show "accounts (markUsed config e now) ! i = (accounts config ! i)\<lparr>lastUsed := Some now\<rparr>"
    unfolding markUsed_def by (rule mutateFound_known(2) [OF k])
  show "\<forall>j. j \<noteq> i \<longrightarrow> accounts (markUsed config e now) ! j = accounts config ! j"
    unfolding markUsed_def by (rule mutateFound_known(3) [OF k])
  show "length (accounts (markRateLimited config e now)) = length (accounts config)"
    unfolding markRateLimited_def by (rule mutateFound_known(1) [OF k])
  show "accounts (markRateLimited config e now) ! i
          = (accounts config ! i)\<lparr>rateLimitedUntil := Some (now + RATE_LIMIT_COOLDOWN_MS)\<rparr>"
    unfolding markRateLimited_def by (rule mutateFound_known(2) [OF k])
  show "\<forall>j. j \<noteq> i \<longrightarrow> accounts (markRateLimited config e now) ! j = accounts config ! j"
    unfolding markRateLimited_def by (rule mutateFound_known(3) [OF k])
  show "length (accounts (updateCachedQuota clock config e fraction reset))
          = length (accounts config)"
    unfolding updateCachedQuota_def by (rule mutateFound_known(1) [OF k])
  show "accounts (updateCachedQuota clock config e fraction reset) ! i
          = (accounts config ! i)\<lparr>cachedImageQuota :=
               Some \<lparr>remainingFraction = fraction, resetTime = reset, updatedAt = clock\<rparr>\<rparr>"
    unfolding updateCachedQuota_def by (rule mutateFound_known(2) [OF k])
  show "\<forall>j. j \<noteq> i \<longrightarrow>
            accounts (updateCachedQuota clock config e fraction reset) ! j = accounts config ! j"
    unfolding updateCachedQuota_def by (rule mutateFound_known(3) [OF k])
next
  assume "\<exists>a \<in> set (accounts config). email a = e"
  then have "findIndex (\<lambda>a. email a = e) (accounts config) \<noteq> None"
    by (simp add: findIndex_None)
  then show "\<exists>k. findIndex (\<lambda>a. email a = e) (accounts config) = Some k"
    by auto
qed

theorem recording_frame_witness:
  "markUsed cfgTwo ''unknown'' 999 = cfgTwo
   \<and> markRateLimited cfgTwo ''unknown'' 999 = cfgTwo
   \<and> updateCachedQuota 1000 cfgTwo ''unknown'' (1 / 2) None = cfgTwo
   \<and> accounts (markUsed cfgTwo ''user2'' 12345) ! 1
       = (newAccount ''user2'')\<lparr>lastUsed := Some 12345\<rparr>
   \<and> accounts (markUsed cfgTwo ''user2'' 12345) ! 0 = newAccount ''user1''
   \<and> length (accounts (markUsed cfgTwo ''user2'' 12345)) = 2"
proof -
  have u: "\<forall>a \<in> set (accounts cfgTwo). email a \<noteq> ''unknown''" by code_simp
  have k: "findIndex (\<lambda>a. email a = ''user2'') (accounts cfgTwo) = Some 1" by code_simp
  have v: "accounts cfgTwo ! 1 = newAccount ''user2''" "accounts cfgTwo ! 0 = newAccount ''user1''"
    "length (accounts cfgTwo) = 2" by code_simp+
  from recording_frame [of cfgTwo "''unknown''" 999 1000 "1 / 2" None 0] u
  have 1: "markUsed cfgTwo ''unknown'' 999 = cfgTwo
      \<and> markRateLimited cfgTwo ''unknown'' 999 = cfgTwo
      \<and> updateCachedQuota 1000 cfgTwo ''unknown'' (1 / 2) None = cfgTwo"
    by blast
  from recording_frame [of cfgTwo "''user2''" 12345 1000 "1 / 2" None 1] k
  have 2: "accounts (markUsed cfgTwo ''user2'' 12345) ! 1
             = (accounts cfgTwo ! 1)\<lparr>lastUsed := Some 12345\<rparr>"
    and 3: "\<forall>j. j \<noteq> 1 \<longrightarrow> accounts (markUsed cfgTwo ''user2'' 12345) ! j = accounts cfgTwo ! j"
    and 4: "length (accounts (markUsed cfgTwo ''user2'' 12345)) = length (accounts cfgTwo)"
    by blast+
  from 3 have "accounts (markUsed cfgTwo ''user2'' 12345) ! 0 = accounts cfgTwo ! 0" by simp
  with 1 2 4 v show ?thesis by simp
qed



subsection \<open>Selection on the heap\<close>

lemma partitionLoopH_frame:
  "objects (partitionLoopH clock ex now av sq xs h) = objects h
   \<and> nextArray (partitionLoopH clock ex now av sq xs h) = nextArray h
   \<and> (\<forall>a. a \<noteq> av \<and> a \<noteq> sq \<longrightarrow> arrays (partitionLoopH clock ex now av sq xs h) a = arrays h a)"
  by (induction xs arbitrary: h) (simp_all add: push_def)

lemma partitionLoopH_pools:
  "av \<noteq> sq \<Longrightarrow>
   arrays (partitionLoopH clock ex now av sq xs h) av
     = arrays h av @ filter (\<lambda>r. eligible ex now (objects h r) \<and> \<not> isSoftQuotaExceeded clock (objects h r)) xs
   \<and> arrays (partitionLoopH clock ex now av sq xs h) sq
     = arrays h sq @ filter (\<lambda>r. eligible ex now (objects h r) \<and> isSoftQuotaExceeded clock (objects h r)) xs"
  by (induction xs arbitrary: h) (simp_all add: push_def eligible_def)

lemma map_insort_key:
  "map f (insort_key (\<lambda>x. g (f x)) x xs) = insort_key g (f x) (map f xs)"
  by (induction xs) simp_all

lemma map_sort_key:
  "map f (sort_key (\<lambda>x. g (f x)) xs) = sort_key g (map f xs)"
  by (induction xs) (simp_all add: map_insort_key)

lemma twoArrays_simps:
  "objects (twoArrays h) = objects h"
  "nextArray (twoArrays h) = Suc (Suc (nextArray h))"
  "arrays (twoArrays h) = (arrays h)(nextArray h := [], Suc (nextArray h) := [])"
  by (simp_all add: twoArrays_def newArray_def)

lemma selectAccountH_unfold:
  assumes "config < nextArray h"
  shows "selectAccountH clock h config ex now =
     (if arrays (partitioned clock h config ex now) (poolRef clock h config ex now) = []
      then (None, partitioned clock h config ex now)
      else (Some (arrays (sortInPlace (poolRef clock h config ex now)
                            (partitioned clock h config ex now))
                         (poolRef clock h config ex now) ! 0),
            sortInPlace (poolRef clock h config ex now) (partitioned clock h config ex now)))"
proof -
  from assms have cfg: "config \<noteq> nextArray h" "config \<noteq> Suc (nextArray h)"
    by simp_all
  show ?thesis
    unfolding selectAccountH_def partitioned_def poolRef_def twoArrays_def newArray_def Let_def
    by (simp add: cfg)
qed

lemma partitioned_frame:
  "objects (partitioned clock h config ex now) = objects h"
  "a < nextArray h \<Longrightarrow> arrays (partitioned clock h config ex now) a = arrays h a"
  using partitionLoopH_frame
    [of clock ex now "nextArray h" "Suc (nextArray h)" "arrays h config" "twoArrays h"]
  by (simp_all add: partitioned_def twoArrays_simps)

lemma sortInPlace_frame:
  "objects (sortInPlace p h) = objects h"
  "a \<noteq> p \<Longrightarrow> arrays (sortInPlace p h) a = arrays h a"
  by (simp_all add: sortInPlace_def)

lemma poolRef_fresh: "a < nextArray h \<Longrightarrow> a \<noteq> poolRef clock h config ex now"
  by (simp add: poolRef_def)

lemma selectAccountH_frame:
  assumes "config < nextArray h"
  shows "objects (snd (selectAccountH clock h config ex now)) = objects h"
    and "a < nextArray h \<Longrightarrow> arrays (snd (selectAccountH clock h config ex now)) a = arrays h a"
  by (simp_all add: selectAccountH_unfold [OF assms] partitioned_frame sortInPlace_frame
        poolRef_fresh)

lemma partitioned_pools:
  "map (objects h) (arrays (partitioned clock h config ex now) (nextArray h))
     = headroomPool clock ex now (storeView h config)"
  "map (objects h) (arrays (partitioned clock h config ex now) (Suc (nextArray h)))
     = softExceededPool clock ex now (storeView h config)"
  using partitionLoopH_pools
    [of "nextArray h" "Suc (nextArray h)" clock ex now "arrays h config" "twoArrays h"]
  by (simp_all add: partitioned_def twoArrays_simps headroomPool_def softExceededPool_def
        storeView_def filter_map comp_def)

lemma partitioned_pool:
  "map (objects h) (arrays (partitioned clock h config ex now) (poolRef clock h config ex now))
     = (if headroomPool clock ex now (storeView h config) \<noteq> []
        then headroomPool clock ex now (storeView h config)
        else softExceededPool clock ex now (storeView h config))"
proof (cases "arrays (partitioned clock h config ex now) (nextArray h) = []")
  case True
  with partitioned_pools(1) [of h clock config ex now]
  have "headroomPool clock ex now (storeView h config) = []" by simp
  with True show ?thesis by (simp add: poolRef_def partitioned_pools(2))
next
  case False
  with partitioned_pools(1) [of h clock config ex now]
  have "headroomPool clock ex now (storeView h config) \<noteq> []" by auto
  with False show ?thesis by (simp add: poolRef_def partitioned_pools(1))
qed

lemma map_nth0: "xs \<noteq> [] \<Longrightarrow> map f xs ! 0 = f (xs ! 0)"
  by (cases xs) simp_all

lemma selectAccountH_result:
  assumes "config < nextArray h"
  shows "map_option (objects h) (fst (selectAccountH clock h config ex now))
           = selectAccount clock (storeView h config) ex now"
proof -
  let ?h3 = "partitioned clock h config ex now"
  let ?p = "poolRef clock h config ex now"
  let ?P = "if headroomPool clock ex now (storeView h config) \<noteq> []
            then headroomPool clock ex now (storeView h config)
            else softExceededPool clock ex now (storeView h config)"
  have mappool: "map (objects h) (arrays ?h3 ?p) = ?P"
    by (rule partitioned_pool)
  have sel: "selectAccount clock (storeView h config) ex now = firstMinBy lastUsedKey ?P"
    by (rule selectAccount_pools')
  show ?thesis
  proof (cases "arrays ?h3 ?p = []")
    case True
    with mappool have "?P = []" by simp
    then have "firstMinBy lastUsedKey ?P = None"
      by (simp only: firstMinBy.simps)
    with True show ?thesis
      by (simp only: selectAccountH_unfold [OF assms] sel simp_thms if_True fst_conv option.map)
  next
    case False
    let ?sorted = "sort_key (\<lambda>r. lastUsedKey (objects h r)) (arrays ?h3 ?p)"
    from False have ne: "?sorted \<noteq> []"
      by (metis length_sort length_0_conv)
    from False mappool have Pne: "?P \<noteq> []"
      by (metis map_is_Nil_conv)
    have "objects h (?sorted ! 0) = map (objects h) ?sorted ! 0"
      by (rule map_nth0 [OF ne, symmetric])
    also have "\<dots> = sort_key lastUsedKey ?P ! 0"
      by (simp only: map_sort_key mappool)
    finally have "Some (objects h (?sorted ! 0)) = firstMinBy lastUsedKey ?P"
      by (simp only: sort_key_nth0 [OF Pne])
    moreover have "arrays (sortInPlace ?p ?h3) ?p = ?sorted"
      by (simp add: sortInPlace_def partitioned_frame(1))
    ultimately show ?thesis
      using False
      by (simp only: selectAccountH_unfold [OF assms] sel simp_thms if_False fst_conv option.map)
  qed
qed

text \<open>
  C10. Selection does not change the store. For a store array allocated before the call, after
  \<open>selectAccountH\<close> the array \<^verbatim>\<open>config.accounts\<close> holds the same references in the same order,
  every account object is unchanged, and so is every array that existed before the call: the
  pushes and the in-place sort write only the two arrays allocated by the call. The reference
  returned is to the account that \<open>selectAccount\<close> returns on the list of records.
\<close>

theorem selectAccount_leaves_store:
  assumes "config < nextArray h"
  shows "arrays (snd (selectAccountH clock h config ex now)) config = arrays h config
     \<and> objects (snd (selectAccountH clock h config ex now)) = objects h
     \<and> (\<forall>a < nextArray h. arrays (snd (selectAccountH clock h config ex now)) a = arrays h a)
     \<and> storeView (snd (selectAccountH clock h config ex now)) config = storeView h config
     \<and> map_option (objects h) (fst (selectAccountH clock h config ex now))
         = selectAccount clock (storeView h config) ex now"
proof -
  have 1: "objects (snd (selectAccountH clock h config ex now)) = objects h"
    by (rule selectAccountH_frame(1) [OF assms])
  have 2: "\<forall>a < nextArray h. arrays (snd (selectAccountH clock h config ex now)) a = arrays h a"
    by (simp add: selectAccountH_frame(2) [OF assms])
  from 2 assms have 3: "arrays (snd (selectAccountH clock h config ex now)) config = arrays h config"
    by simp
  from 1 3 have 4: "storeView (snd (selectAccountH clock h config ex now)) config = storeView h config"
    by (simp add: storeView_def)
  from 1 2 3 4 selectAccountH_result [OF assms] show ?thesis by simp
qed

theorem selectAccount_leaves_store_witness:
  "arrays (snd (selectAccountH 1000 heapThree 0 [] 1000)) 0 = [0, 1, 2]
   \<and> accounts (storeView (snd (selectAccountH 1000 heapThree 0 [] 1000)) 0)
       = accounts (storeView heapThree 0)
   \<and> fst (selectAccountH 1000 heapThree 0 [] 1000) = Some 1
   \<and> arrays (snd (selectAccountH 1000 heapThree 0 [] 1000)) 1 = [1, 2, 0]"
proof -
  have h: "0 < nextArray heapThree" by code_simp
  have a: "arrays heapThree 0 = [0, 1, 2]" by code_simp
  have r: "fst (selectAccountH 1000 heapThree 0 [] 1000) = Some 1" by code_simp
  have s: "arrays (snd (selectAccountH 1000 heapThree 0 [] 1000)) 1 = [1, 2, 0]" by code_simp
  from selectAccount_leaves_store [OF h, of 1000 "[]" 1000] a r s
  show ?thesis by simp
qed

section \<open>Facts about the executor\<close>

lemma attemptsOn_append [simp]:
  "attemptsOn u (xs @ ys) = attemptsOn u xs + attemptsOn u ys"
  by (induction xs rule: attemptsOn.induct) auto

lemma attemptStatuses_append [simp]:
  "attemptStatuses (xs @ ys) = attemptStatuses xs @ attemptStatuses ys"
  by (induction xs rule: attemptStatuses.induct) auto

lemma success_status:
  assumes "success (result (attemptGeneration out))"
  shows "status (attemptGeneration out) = 200"
proof (cases out)
  case (HttpError st body)
  with assms show ?thesis by (simp add: failure_def)
next
  case (HttpOk body)
  then show ?thesis by simp
next
  case Aborted
  with assms show ?thesis by (simp add: failure_def)
next
  case (Thrown msg)
  with assms show ?thesis by (simp add: failure_def)
qed

lemma classify_Success:
  "classify r = Success \<longleftrightarrow> success (result r) \<and> truthyStr (imageData (result r))"
  by (simp add: classify_def)

lemma classify_Capacity:
  "classify r = CapacityUnavailable \<longleftrightarrow>
     \<not> (success (result r) \<and> truthyStr (imageData (result r))) \<and> status r = 503"
  by (simp add: classify_def)

lemma classify_RateLimited:
  "classify r = RateLimited \<longleftrightarrow>
     \<not> (success (result r) \<and> truthyStr (imageData (result r))) \<and> status r = 429"
  by (simp add: classify_def)

lemma classify_Other:
  "classify r = TimeoutOrOtherError \<longleftrightarrow>
     \<not> (success (result r) \<and> truthyStr (imageData (result r))) \<and> status r \<noteq> 503
     \<and> status r \<noteq> 429"
  by (simp add: classify_def)

lemma attemptStep_Success:
  "classify (respond env s baseUrl) = Success \<Longrightarrow>
   attemptStep env baseUrl s =
     (Return ((withReferenceErrors env (result (respond env s baseUrl)))\<lparr>quota := quotaLookup env\<rparr>),
      s\<lparr>trace := trace s @ [Attempt baseUrl (status (respond env s baseUrl))],
        allRateLimited := False, allCapacity := False\<rparr>)"
  unfolding classify_Success respond_def attemptStep_def Let_def by simp

lemma attemptStep_Capacity:
  "classify (respond env s baseUrl) = CapacityUnavailable \<Longrightarrow>
   attemptStep env baseUrl s =
     (Continue,
      s\<lparr>trace := trace s @ [Attempt baseUrl 503], allRateLimited := False,
        lastError := strOr (error (result (respond env s baseUrl))) ''No capacity''\<rparr>)"
  unfolding classify_Capacity respond_def attemptStep_def Let_def by simp

lemma attemptStep_RateLimited:
  "classify (respond env s baseUrl) = RateLimited \<Longrightarrow>
   attemptStep env baseUrl s =
     (Break,
      s\<lparr>trace := trace s @ [Attempt baseUrl 429], allCapacity := False,
        lastError := strOr (error (result (respond env s baseUrl))) ''Rate limited''\<rparr>)"
  unfolding classify_RateLimited respond_def attemptStep_def Let_def by simp

lemma attemptStep_Other:
  "classify (respond env s baseUrl) = TimeoutOrOtherError \<Longrightarrow>
   attemptStep env baseUrl s =
     (Return (withReferenceErrors env (result (respond env s baseUrl))),
      s\<lparr>trace := trace s @ [Attempt baseUrl (status (respond env s baseUrl))],
        allRateLimited := False, allCapacity := False\<rparr>)"
  unfolding classify_Other respond_def attemptStep_def Let_def by simp blast

lemma retryLoop_exhausted:
  "maxRetries < retry \<Longrightarrow> retryLoop env maxRetries baseDelay baseUrl retry s = (None, s)"
  by (subst retryLoop.simps) simp

lemma retryLoop_step:
  "retry \<le> maxRetries \<Longrightarrow>
   retryLoop env maxRetries baseDelay baseUrl retry s =
     (case attemptStep env baseUrl (beforeAttempt baseDelay retry s) of
        (Return r, s') \<Rightarrow> (Some r, s')
      | (Continue, s') \<Rightarrow> retryLoop env maxRetries baseDelay baseUrl (retry + 1) s'
      | (Break, s') \<Rightarrow> (None, s'))"
  by (subst retryLoop.simps) (simp add: beforeAttempt_def)

lemma retriesFrom_unfold:
  "r \<le> maxRetries \<Longrightarrow>
   retriesFrom baseDelay baseUrl r maxRetries =
     [Sleep (baseDelay * 2 ^ (r - 1)), Attempt baseUrl 503]
       @ retriesFrom baseDelay baseUrl (Suc r) maxRetries"
  using upt_conv_Cons [of r "Suc maxRetries"] by (simp add: retriesFrom_def)

lemma retriesFrom_done: "maxRetries < r \<Longrightarrow> retriesFrom baseDelay baseUrl r maxRetries = []"
  by (simp add: retriesFrom_def)

lemma retryLoop_capacity_run:
  assumes cap: "\<forall>h. classify (attemptGeneration (net env h baseUrl)) = CapacityUnavailable"
  shows "0 < r \<Longrightarrow>
     \<exists>s'. retryLoop env maxRetries baseDelay baseUrl r s = (None, s')
        \<and> trace s' = trace s @ retriesFrom baseDelay baseUrl r maxRetries
        \<and> allCapacity s' = allCapacity s
        \<and> (allRateLimited s' \<longrightarrow> allRateLimited s)"
proof (induction "Suc maxRetries - r" arbitrary: r s)
  case 0
  then have "maxRetries < r" by simp
  then show ?case
    by (simp add: retryLoop_exhausted retriesFrom_done)
next
  case (Suc k)
  then have le: "r \<le> maxRetries" and k: "k = Suc maxRetries - Suc r" by simp_all
  let ?s1 = "beforeAttempt baseDelay r s"
  let ?s2 = "?s1\<lparr>trace := trace ?s1 @ [Attempt baseUrl 503], allRateLimited := False,
        lastError := strOr (error (result (respond env ?s1 baseUrl))) ''No capacity''\<rparr>"
  from cap have "classify (respond env ?s1 baseUrl) = CapacityUnavailable"
    by (simp add: respond_def)
  then have step: "attemptStep env baseUrl ?s1 = (Continue, ?s2)"
    by (rule attemptStep_Capacity)
  have run: "retryLoop env maxRetries baseDelay baseUrl r s
               = retryLoop env maxRetries baseDelay baseUrl (Suc r) ?s2"
    by (simp add: retryLoop_step [OF le] step)
  from Suc.hyps(1) [OF k, of ?s2] obtain s' where
    s': "retryLoop env maxRetries baseDelay baseUrl (Suc r) ?s2 = (None, s')"
      "trace s' = trace ?s2 @ retriesFrom baseDelay baseUrl (Suc r) maxRetries"
      "allCapacity s' = allCapacity ?s2"
      "\<not> allRateLimited s'"
    by auto
  from \<open>0 < r\<close> have tr: "trace ?s2 = trace s @ [Sleep (baseDelay * 2 ^ (r - 1)), Attempt baseUrl 503]"
    by (simp add: beforeAttempt_def sleep_def)
  from \<open>0 < r\<close> have cp: "allCapacity ?s2 = allCapacity s"
    by (simp add: beforeAttempt_def sleep_def)
  from s' tr cp le show ?case
    by (simp add: run retriesFrom_unfold)
qed

lemma backoffSchedule_retriesFrom:
  "backoffSchedule baseDelay baseUrl maxRetries =
     Attempt baseUrl 503 # retriesFrom baseDelay baseUrl 1 maxRetries"
  by (simp add: backoffSchedule_def retriesFrom_def)

lemma retryLoop_all_capacity:
  assumes cap: "\<forall>h. classify (attemptGeneration (net env h baseUrl)) = CapacityUnavailable"
  shows "\<exists>s'. retryLoop env maxRetries baseDelay baseUrl 0 s = (None, s')
        \<and> trace s' = trace s @ backoffSchedule baseDelay baseUrl maxRetries
        \<and> allCapacity s' = allCapacity s
        \<and> \<not> allRateLimited s'"
proof -
  let ?s2 = "s\<lparr>trace := trace s @ [Attempt baseUrl 503], allRateLimited := False,
        lastError := strOr (error (result (respond env s baseUrl))) ''No capacity''\<rparr>"
  from cap have "classify (respond env s baseUrl) = CapacityUnavailable"
    by (simp add: respond_def)
  then have step: "attemptStep env baseUrl s = (Continue, ?s2)"
    by (rule attemptStep_Capacity)
  have run: "retryLoop env maxRetries baseDelay baseUrl 0 s
               = retryLoop env maxRetries baseDelay baseUrl 1 ?s2"
    by (simp add: retryLoop_step beforeAttempt_def step)
  from retryLoop_capacity_run [OF cap, of 1 maxRetries baseDelay ?s2] obtain s' where
    s': "retryLoop env maxRetries baseDelay baseUrl 1 ?s2 = (None, s')"
      "trace s' = trace ?s2 @ retriesFrom baseDelay baseUrl 1 maxRetries"
      "allCapacity s' = allCapacity ?s2"
      "allRateLimited s' \<longrightarrow> allRateLimited ?s2"
    by auto
  then show ?thesis
    by (simp add: run backoffSchedule_retriesFrom)
qed

lemma attemptsOn_retriesFrom:
  "attemptsOn baseUrl (retriesFrom baseDelay baseUrl r maxRetries) = Suc maxRetries - r"
proof (induction "Suc maxRetries - r" arbitrary: r)
  case 0
  then show ?case by (simp add: retriesFrom_def)
next
  case (Suc k)
  then have le: "r \<le> maxRetries" and k: "k = Suc maxRetries - Suc r" by simp_all
  from Suc.hyps(1) [OF k] le show ?case
    by (simp add: retriesFrom_unfold)
qed

lemma attemptsOn_backoffSchedule:
  "attemptsOn baseUrl (backoffSchedule baseDelay baseUrl maxRetries) = maxRetries + 1"
  by (simp add: backoffSchedule_retriesFrom attemptsOn_retriesFrom)

lemma attemptStep_trace:
  "trace (snd (attemptStep env baseUrl s))
     = trace s @ [Attempt baseUrl (status (respond env s baseUrl))]"
  by (simp add: attemptStep_def respond_def Let_def)

lemma beforeAttempt_trace:
  "\<exists>pre. trace (beforeAttempt baseDelay retry s) = trace s @ pre"
  by (simp add: beforeAttempt_def sleep_def)

lemma retryLoop_trace_ext:
  "\<exists>ext. trace (snd (retryLoop env maxRetries baseDelay baseUrl retry s)) = trace s @ ext"
proof (induction "Suc maxRetries - retry" arbitrary: retry s)
  case 0
  then have "maxRetries < retry" by simp
  then show ?case by (simp add: retryLoop_exhausted)
next
  case (Suc k)
  then have le: "retry \<le> maxRetries" and k: "k = Suc maxRetries - (retry + 1)" by simp_all
  let ?s1 = "beforeAttempt baseDelay retry s"
  obtain c s2 where step: "attemptStep env baseUrl ?s1 = (c, s2)"
    by (cases "attemptStep env baseUrl ?s1") auto
  from attemptStep_trace [of env baseUrl ?s1] step beforeAttempt_trace [of baseDelay retry s]
  obtain ext where s2: "trace s2 = trace s @ ext" by auto
  show ?case
  proof (cases c)
    case (Return r)
    with step s2 show ?thesis by (simp add: retryLoop_step [OF le])
  next
    case Continue
    from Suc.hyps(1) [OF k, of s2] obtain ext' where
      "trace (snd (retryLoop env maxRetries baseDelay baseUrl (retry + 1) s2)) = trace s2 @ ext'"
      by blast
    with Continue step s2 show ?thesis by (simp add: retryLoop_step [OF le])
  next
    case Break
    with step s2 show ?thesis by (simp add: retryLoop_step [OF le])
  qed
qed

lemma retryLoop_first_event:
  "\<exists>ext. trace (snd (retryLoop env maxRetries baseDelay baseUrl 0 s))
           = trace s @ Attempt baseUrl (status (respond env s baseUrl)) # ext"
proof -
  obtain c s2 where step: "attemptStep env baseUrl s = (c, s2)"
    by (cases "attemptStep env baseUrl s") auto
  with attemptStep_trace [of env baseUrl s]
  have s2: "trace s2 = trace s @ [Attempt baseUrl (status (respond env s baseUrl))]" by simp
  have unf: "retryLoop env maxRetries baseDelay baseUrl 0 s =
     (case (c, s2) of
        (Return r, s') \<Rightarrow> (Some r, s')
      | (Continue, s') \<Rightarrow> retryLoop env maxRetries baseDelay baseUrl (0 + 1) s'
      | (Break, s') \<Rightarrow> (None, s'))"
    by (simp add: retryLoop_step beforeAttempt_def step)
  show ?thesis
  proof (cases c)
    case (Return r)
    with unf s2 show ?thesis by simp
  next
    case Continue
    from retryLoop_trace_ext [of env maxRetries baseDelay baseUrl "0 + 1" s2] obtain ext' where
      "trace (snd (retryLoop env maxRetries baseDelay baseUrl (0 + 1) s2)) = trace s2 @ ext'"
      by blast
    with Continue unf s2 show ?thesis by simp
  next
    case Break
    with unf s2 show ?thesis by simp
  qed
qed

lemma endpointLoop_trace_ext:
  "\<exists>ext. trace (snd (endpointLoop env maxRetries baseDelay urls s)) = trace s @ ext"
proof (induction urls arbitrary: s)
  case Nil
  then show ?case by simp
next
  case (Cons u urls)
  obtain x s1 where run: "retryLoop env maxRetries baseDelay u 0 s = (x, s1)"
    by (cases "retryLoop env maxRetries baseDelay u 0 s") auto
  with retryLoop_trace_ext [of env maxRetries baseDelay u 0 s]
  obtain ext where s1: "trace s1 = trace s @ ext" by auto
  show ?case
  proof (cases x)
    case None
    from Cons.IH [of s1] obtain ext' where
      "trace (snd (endpointLoop env maxRetries baseDelay urls s1)) = trace s1 @ ext'" by blast
    with None run s1 show ?thesis by simp
  next
    case (Some r)
    with run s1 show ?thesis by simp
  qed
qed

lemma endpointLoop_first_event:
  "\<exists>ext. trace (snd (endpointLoop env maxRetries baseDelay (u # urls) s))
           = trace s @ Attempt u (status (respond env s u)) # ext"
proof -
  obtain x s1 where run: "retryLoop env maxRetries baseDelay u 0 s = (x, s1)"
    by (cases "retryLoop env maxRetries baseDelay u 0 s") auto
  with retryLoop_first_event [of env maxRetries baseDelay u s]
  obtain ext where s1: "trace s1 = trace s @ Attempt u (status (respond env s u)) # ext" by auto
  show ?thesis
  proof (cases x)
    case None
    from endpointLoop_trace_ext [of env maxRetries baseDelay urls s1] obtain ext' where
      "trace (snd (endpointLoop env maxRetries baseDelay urls s1)) = trace s1 @ ext'" by blast
    with None run s1 show ?thesis by simp
  next
    case (Some r)
    with run s1 show ?thesis by simp
  qed
qed

lemma endpointLoop_rateLimited:
  assumes "classify (respond env s u) = RateLimited"
  shows "endpointLoop env maxRetries baseDelay (u # urls) s =
     endpointLoop env maxRetries baseDelay urls
       (s\<lparr>trace := trace s @ [Attempt u 429], allCapacity := False,
          lastError := strOr (error (result (respond env s u))) ''Rate limited''\<rparr>)"
  by (simp add: retryLoop_step beforeAttempt_def attemptStep_RateLimited [OF assms])

lemma endpointLoop_other:
  assumes "classify (respond env s u) = TimeoutOrOtherError"
  shows "endpointLoop env maxRetries baseDelay (u # urls) s =
     (Some (withReferenceErrors env (result (respond env s u))),
      s\<lparr>trace := trace s @ [Attempt u (status (respond env s u))],
        allRateLimited := False, allCapacity := False\<rparr>)"
  by (simp add: retryLoop_step beforeAttempt_def attemptStep_Other [OF assms])

lemma endpointLoop_success:
  assumes "classify (respond env s u) = Success"
  shows "endpointLoop env maxRetries baseDelay (u # urls) s =
     (Some ((withReferenceErrors env (result (respond env s u)))\<lparr>quota := quotaLookup env\<rparr>),
      s\<lparr>trace := trace s @ [Attempt u (status (respond env s u))],
        allRateLimited := False, allCapacity := False\<rparr>)"
  by (simp add: retryLoop_step beforeAttempt_def attemptStep_Success [OF assms])

lemma endpointLoop_capacity:
  assumes "\<forall>h. classify (attemptGeneration (net env h u)) = CapacityUnavailable"
  shows "\<exists>s'. endpointLoop env maxRetries baseDelay (u # urls) s
               = endpointLoop env maxRetries baseDelay urls s'
        \<and> trace s' = trace s @ backoffSchedule baseDelay u maxRetries
        \<and> allCapacity s' = allCapacity s
        \<and> \<not> allRateLimited s'"
proof -
  from retryLoop_all_capacity [OF assms, of maxRetries baseDelay s] obtain s' where
    s': "retryLoop env maxRetries baseDelay u 0 s = (None, s')"
      "trace s' = trace s @ backoffSchedule baseDelay u maxRetries"
      "allCapacity s' = allCapacity s" "\<not> allRateLimited s'"
    by blast
  then have "endpointLoop env maxRetries baseDelay (u # urls) s
               = endpointLoop env maxRetries baseDelay urls s'" by simp
  with s' show ?thesis by blast
qed

lemma flagsAgree_initial: "flagsAgree initialState"
  by (simp add: flagsAgree_def initialState_def)

lemma flagsAgree_beforeAttempt:
  "flagsAgree s \<Longrightarrow> flagsAgree (beforeAttempt baseDelay retry s)"
  by (simp add: flagsAgree_def beforeAttempt_def sleep_def)

lemma attemptStep_flagsAgree:
  assumes "flagsAgree s"
  shows "flagsAgree (snd (attemptStep env baseUrl s))"
proof (cases "classify (respond env s baseUrl)")
  case Success
  then have "success (result (attemptGeneration (net env (trace s) baseUrl)))"
    by (simp add: classify_Success respond_def)
  then have "status (respond env s baseUrl) = 200"
    unfolding respond_def by (rule success_status)
  with assms show ?thesis
    by (simp add: attemptStep_Success [OF Success] flagsAgree_def)
next
  case CapacityUnavailable
  with assms show ?thesis
    by (simp add: attemptStep_Capacity [OF CapacityUnavailable] flagsAgree_def)
next
  case RateLimited
  with assms show ?thesis
    by (simp add: attemptStep_RateLimited [OF RateLimited] flagsAgree_def)
next
  case TimeoutOrOtherError
  then have "status (respond env s baseUrl) \<noteq> 503" "status (respond env s baseUrl) \<noteq> 429"
    by (simp_all add: classify_Other)
  with assms show ?thesis
    by (simp add: attemptStep_Other [OF TimeoutOrOtherError] flagsAgree_def)
qed

lemma retryLoop_flagsAgree:
  "flagsAgree s \<Longrightarrow> flagsAgree (snd (retryLoop env maxRetries baseDelay baseUrl retry s))"
proof (induction "Suc maxRetries - retry" arbitrary: retry s)
  case 0
  then have "maxRetries < retry" by simp
  with "0.prems" show ?case by (simp add: retryLoop_exhausted)
next
  case (Suc k)
  then have le: "retry \<le> maxRetries" and k: "k = Suc maxRetries - (retry + 1)" by simp_all
  let ?s1 = "beforeAttempt baseDelay retry s"
  obtain c s2 where step: "attemptStep env baseUrl ?s1 = (c, s2)"
    by (cases "attemptStep env baseUrl ?s1") auto
  from attemptStep_flagsAgree [OF flagsAgree_beforeAttempt [OF Suc.prems], of env baseUrl baseDelay retry]
    step
  have s2: "flagsAgree s2" by simp
  show ?case
  proof (cases c)
    case (Return r)
    with step s2 show ?thesis by (simp add: retryLoop_step [OF le])
  next
    case Continue
    from Suc.hyps(1) [OF k s2] Continue step show ?thesis
      by (simp add: retryLoop_step [OF le])
  next
    case Break
    with step s2 show ?thesis by (simp add: retryLoop_step [OF le])
  qed
qed

lemma endpointLoop_flagsAgree:
  "flagsAgree s \<Longrightarrow> flagsAgree (snd (endpointLoop env maxRetries baseDelay urls s))"
proof (induction urls arbitrary: s)
  case Nil
  then show ?case by simp
next
  case (Cons u urls)
  obtain x s1 where run: "retryLoop env maxRetries baseDelay u 0 s = (x, s1)"
    by (cases "retryLoop env maxRetries baseDelay u 0 s") auto
  with retryLoop_flagsAgree [OF Cons.prems, of env maxRetries baseDelay u 0]
  have s1: "flagsAgree s1" by simp
  show ?case
  proof (cases x)
    case None
    with Cons.IH [OF s1] run show ?thesis by simp
  next
    case (Some r)
    with run s1 show ?thesis by simp
  qed
qed

lemma endpointLoop_all_rateLimited:
  assumes "\<forall>h. \<forall>u \<in> set urls. classify (attemptGeneration (net env h u)) = RateLimited"
  shows "\<exists>s'. endpointLoop env maxRetries baseDelay urls s = (None, s')
        \<and> allRateLimited s' = allRateLimited s
        \<and> (if urls = [] then allCapacity s' = allCapacity s else \<not> allCapacity s')"
  using assms
proof (induction urls arbitrary: s)
  case Nil
  then show ?case by simp
next
  case (Cons u urls)
  let ?s1 = "s\<lparr>trace := trace s @ [Attempt u 429], allCapacity := False,
          lastError := strOr (error (result (respond env s u))) ''Rate limited''\<rparr>"
  from Cons.prems have "classify (respond env s u) = RateLimited"
    by (simp add: respond_def)
  then have run: "endpointLoop env maxRetries baseDelay (u # urls) s
                    = endpointLoop env maxRetries baseDelay urls ?s1"
    by (rule endpointLoop_rateLimited)
  from Cons.prems have "\<forall>h. \<forall>u \<in> set urls. classify (attemptGeneration (net env h u)) = RateLimited"
    by simp
  from Cons.IH [OF this, of ?s1] obtain s' where
    s': "endpointLoop env maxRetries baseDelay urls ?s1 = (None, s')"
      "allRateLimited s' = allRateLimited ?s1"
      "if urls = [] then allCapacity s' = allCapacity ?s1 else \<not> allCapacity s'"
    by blast
  then have "\<not> allCapacity s'" by (cases "urls = []") auto
  with s' run show ?case by simp
qed

lemma endpointLoop_all_capacity:
  assumes "\<forall>h. \<forall>u \<in> set urls. classify (attemptGeneration (net env h u)) = CapacityUnavailable"
  shows "\<exists>s'. endpointLoop env maxRetries baseDelay urls s = (None, s')
        \<and> allCapacity s' = allCapacity s
        \<and> (if urls = [] then allRateLimited s' = allRateLimited s else \<not> allRateLimited s')"
  using assms
proof (induction urls arbitrary: s)
  case Nil
  then show ?case by simp
next
  case (Cons u urls)
  from Cons.prems have "\<forall>h. classify (attemptGeneration (net env h u)) = CapacityUnavailable"
    by simp
  from endpointLoop_capacity [OF this, of maxRetries baseDelay urls s] obtain s1 where
    s1: "endpointLoop env maxRetries baseDelay (u # urls) s
           = endpointLoop env maxRetries baseDelay urls s1"
      "allCapacity s1 = allCapacity s" "\<not> allRateLimited s1"
    by blast
  from Cons.prems have "\<forall>h. \<forall>u \<in> set urls. classify (attemptGeneration (net env h u)) = CapacityUnavailable"
    by simp
  from Cons.IH [OF this, of s1] obtain s' where
    s': "endpointLoop env maxRetries baseDelay urls s1 = (None, s')"
      "allCapacity s' = allCapacity s1"
      "if urls = [] then allRateLimited s' = allRateLimited s1 else \<not> allRateLimited s'"
    by blast
  then have "\<not> allRateLimited s'" using s1 by (cases "urls = []") auto
  with s' s1 show ?case by simp
qed

lemma retryLoop_at_Capacity:
  assumes "retry \<le> maxRetries"
    and "classify (respond env (beforeAttempt baseDelay retry s) u) = CapacityUnavailable"
  shows "retryLoop env maxRetries baseDelay u retry s =
     retryLoop env maxRetries baseDelay u (retry + 1)
       ((beforeAttempt baseDelay retry s)
          \<lparr>trace := trace (beforeAttempt baseDelay retry s) @ [Attempt u 503],
            allRateLimited := False,
            lastError := strOr (error (result (respond env (beforeAttempt baseDelay retry s) u)))
                           ''No capacity''\<rparr>)"
  by (simp add: retryLoop_step [OF assms(1)] attemptStep_Capacity [OF assms(2)])

lemma retryLoop_at_RateLimited:
  assumes "retry \<le> maxRetries"
    and "classify (respond env (beforeAttempt baseDelay retry s) u) = RateLimited"
  shows "retryLoop env maxRetries baseDelay u retry s =
     (None,
      (beforeAttempt baseDelay retry s)
        \<lparr>trace := trace (beforeAttempt baseDelay retry s) @ [Attempt u 429],
          allCapacity := False,
          lastError := strOr (error (result (respond env (beforeAttempt baseDelay retry s) u)))
                         ''Rate limited''\<rparr>)"
  by (simp add: retryLoop_step [OF assms(1)] attemptStep_RateLimited [OF assms(2)])

lemma retryLoop_at_Other:
  assumes "retry \<le> maxRetries"
    and "classify (respond env (beforeAttempt baseDelay retry s) u) = TimeoutOrOtherError"
  shows "retryLoop env maxRetries baseDelay u retry s =
     (Some (withReferenceErrors env (result (respond env (beforeAttempt baseDelay retry s) u))),
      (beforeAttempt baseDelay retry s)
        \<lparr>trace := trace (beforeAttempt baseDelay retry s)
                    @ [Attempt u (status (respond env (beforeAttempt baseDelay retry s) u))],
          allRateLimited := False, allCapacity := False\<rparr>)"
  by (simp add: retryLoop_step [OF assms(1)] attemptStep_Other [OF assms(2)])

lemma retryLoop_at_Success:
  assumes "retry \<le> maxRetries"
    and "classify (respond env (beforeAttempt baseDelay retry s) u) = Success"
  shows "retryLoop env maxRetries baseDelay u retry s =
     (Some ((withReferenceErrors env (result (respond env (beforeAttempt baseDelay retry s) u)))
              \<lparr>quota := quotaLookup env\<rparr>),
      (beforeAttempt baseDelay retry s)
        \<lparr>trace := trace (beforeAttempt baseDelay retry s)
                    @ [Attempt u (status (respond env (beforeAttempt baseDelay retry s) u))],
          allRateLimited := False, allCapacity := False\<rparr>)"
  by (simp add: retryLoop_step [OF assms(1)] attemptStep_Success [OF assms(2)])

lemma endpointLoop_left:
  "retryLoop env maxRetries baseDelay u 0 s = (None, s') \<Longrightarrow>
   endpointLoop env maxRetries baseDelay (u # rest) s = endpointLoop env maxRetries baseDelay rest s'"
  by simp

lemma endpointLoop_returned:
  "retryLoop env maxRetries baseDelay u 0 s = (Some r, s') \<Longrightarrow>
   endpointLoop env maxRetries baseDelay (u # rest) s = (Some r, s')"
  by simp

text \<open>
  C2. A CapacityUnavailable attempt makes the retry loop go on with the next retry on the same
  endpoint, and every retry \<open>retry \<ge> 1\<close> starts with a sleep of
  \<open>baseDelay * 2 ^ (retry - 1)\<close>. When every attempt against an endpoint \<open>epA\<close> is
  CapacityUnavailable, the executor stays on \<open>epA\<close> for exactly \<open>maxRetries + 1\<close> attempts
  (the events are \<open>backoffSchedule\<close>) and then goes on with the remaining endpoints. In
  particular, for endpoints \<open>[epA, epB]\<close> where \<open>epB\<close> succeeds on its first attempt the
  result is a success, after exactly \<open>maxRetries + 1\<close> attempts against \<open>epA\<close> and one
  against \<open>epB\<close>; with \<open>maxRetries = 2\<close> that is 3 attempts.
\<close>

theorem capacity_retry_in_place:
  "(retry \<le> maxRetries
      \<and> classify (respond env (beforeAttempt baseDelay retry s) epA) = CapacityUnavailable \<longrightarrow>
      retryLoop env maxRetries baseDelay epA retry s =
        retryLoop env maxRetries baseDelay epA (retry + 1)
          ((beforeAttempt baseDelay retry s)
             \<lparr>trace := trace (beforeAttempt baseDelay retry s) @ [Attempt epA 503],
               allRateLimited := False,
               lastError :=
                 strOr (error (result (respond env (beforeAttempt baseDelay retry s) epA)))
                   ''No capacity''\<rparr>))
   \<and> beforeAttempt baseDelay 0 s = s
   \<and> (0 < retry \<longrightarrow>
        beforeAttempt baseDelay retry s
          = s\<lparr>trace := trace s @ [Sleep (baseDelay * 2 ^ (retry - 1))]\<rparr>)
   \<and> ((\<forall>h. classify (attemptGeneration (net env h epA)) = CapacityUnavailable) \<longrightarrow>
        (\<exists>s'. endpointLoop env maxRetries baseDelay (epA # rest) s
                 = endpointLoop env maxRetries baseDelay rest s'
            \<and> trace s' = trace s @ backoffSchedule baseDelay epA maxRetries)
        \<and> attemptsOn epA (backoffSchedule baseDelay epA maxRetries) = maxRetries + 1
        \<and> (epA \<noteq> epB \<and> (\<forall>h. classify (attemptGeneration (net env h epB)) = Success) \<longrightarrow>
               success (fst (executeRequest env maxRetries baseDelay [epA, epB]))
             \<and> trace (snd (executeRequest env maxRetries baseDelay [epA, epB]))
                 = backoffSchedule baseDelay epA maxRetries @ [Attempt epB 200]
             \<and> attemptsOn epA (trace (snd (executeRequest env maxRetries baseDelay [epA, epB])))
                 = maxRetries + 1))"
proof (intro conjI impI)
  assume "retry \<le> maxRetries
      \<and> classify (respond env (beforeAttempt baseDelay retry s) epA) = CapacityUnavailable"
  then show "retryLoop env maxRetries baseDelay epA retry s =
        retryLoop env maxRetries baseDelay epA (retry + 1)
          ((beforeAttempt baseDelay retry s)
             \<lparr>trace := trace (beforeAttempt baseDelay retry s) @ [Attempt epA 503],
               allRateLimited := False,
               lastError :=
                 strOr (error (result (respond env (beforeAttempt baseDelay retry s) epA)))
                   ''No capacity''\<rparr>)"
    by (simp only: retryLoop_at_Capacity)
next
  show "beforeAttempt baseDelay 0 s = s"
    by (simp add: beforeAttempt_def)
next
  assume "0 < retry"
  then show "beforeAttempt baseDelay retry s
          = s\<lparr>trace := trace s @ [Sleep (baseDelay * 2 ^ (retry - 1))]\<rparr>"
    by (simp add: beforeAttempt_def sleep_def)
next
  assume cap: "\<forall>h. classify (attemptGeneration (net env h epA)) = CapacityUnavailable"
  from endpointLoop_capacity [OF cap, of maxRetries baseDelay rest s]
  show "\<exists>s'. endpointLoop env maxRetries baseDelay (epA # rest) s
                 = endpointLoop env maxRetries baseDelay rest s'
            \<and> trace s' = trace s @ backoffSchedule baseDelay epA maxRetries"
    by blast
next
  show "attemptsOn epA (backoffSchedule baseDelay epA maxRetries) = maxRetries + 1"
    by (rule attemptsOn_backoffSchedule)
next
  assume cap: "\<forall>h. classify (attemptGeneration (net env h epA)) = CapacityUnavailable"
  assume "epA \<noteq> epB \<and> (\<forall>h. classify (attemptGeneration (net env h epB)) = Success)"
  then have ne: "epA \<noteq> epB"
    and ok: "\<forall>h. classify (attemptGeneration (net env h epB)) = Success" by simp_all
  from endpointLoop_capacity [OF cap, of maxRetries baseDelay "[epB]" initialState]
  obtain s1 where s1:
    "endpointLoop env maxRetries baseDelay [epA, epB] initialState
       = endpointLoop env maxRetries baseDelay [epB] s1"
    "trace s1 = backoffSchedule baseDelay epA maxRetries"
    by (auto simp: initialState_def)
  from ok have cls: "classify (respond env s1 epB) = Success"
    by (simp add: respond_def)
  then have "success (result (attemptGeneration (net env (trace s1) epB)))"
    by (simp add: classify_Success respond_def)
  then have st: "status (respond env s1 epB) = 200"
    unfolding respond_def by (rule success_status)
  from cls have sc: "success (result (respond env s1 epB))"
    by (simp add: classify_Success)
  have run: "executeRequest env maxRetries baseDelay [epA, epB] =
     ((withReferenceErrors env (result (respond env s1 epB)))\<lparr>quota := quotaLookup env\<rparr>,
      s1\<lparr>trace := trace s1 @ [Attempt epB (status (respond env s1 epB))],
         allRateLimited := False, allCapacity := False\<rparr>)"
    by (simp add: executeRequest_def s1(1) endpointLoop_success [OF cls] del: endpointLoop.simps)
  from sc show "success (fst (executeRequest env maxRetries baseDelay [epA, epB]))"
    by (simp add: run withReferenceErrors_def)
  show tr: "trace (snd (executeRequest env maxRetries baseDelay [epA, epB]))
                 = backoffSchedule baseDelay epA maxRetries @ [Attempt epB 200]"
    by (simp add: run st s1(2))
  from ne show "attemptsOn epA (trace (snd (executeRequest env maxRetries baseDelay [epA, epB])))
                 = maxRetries + 1"
    by (simp add: tr attemptsOn_backoffSchedule)
qed

theorem capacity_retry_in_place_witness:
  "success (fst (executeRequest envE1busy 2 3000 [''E1'', ''E2'']))
   \<and> trace (snd (executeRequest envE1busy 2 3000 [''E1'', ''E2'']))
       = [Attempt ''E1'' 503, Sleep 3000, Attempt ''E1'' 503, Sleep 6000, Attempt ''E1'' 503,
          Attempt ''E2'' 200]
   \<and> attemptsOn ''E1'' (trace (snd (executeRequest envE1busy 2 3000 [''E1'', ''E2'']))) = 3"
proof -
  have h1: "\<forall>h. classify (attemptGeneration (net envE1busy h ''E1'')) = CapacityUnavailable"
    by (simp add: envE1busy_def classify_def failure_def)
  have h2: "''E1'' \<noteq> ''E2''
      \<and> (\<forall>h. classify (attemptGeneration (net envE1busy h ''E2'')) = Success)"
    by (simp add: envE1busy_def pngImage_def classify_def failure_def truthyStr_def)
  have sched: "backoffSchedule 3000 ''E1'' 2
      = [Attempt ''E1'' 503, Sleep 3000, Attempt ''E1'' 503, Sleep 6000, Attempt ''E1'' 503]"
    by code_simp
  from capacity_retry_in_place [where env = envE1busy and epA = "''E1''" and epB = "''E2''"
      and maxRetries = 2 and baseDelay = 3000] h1 h2
  have "success (fst (executeRequest envE1busy 2 3000 [''E1'', ''E2'']))
      \<and> trace (snd (executeRequest envE1busy 2 3000 [''E1'', ''E2'']))
          = backoffSchedule 3000 ''E1'' 2 @ [Attempt ''E2'' 200]
      \<and> attemptsOn ''E1'' (trace (snd (executeRequest envE1busy 2 3000 [''E1'', ''E2''])))
          = 2 + 1"
    by blast
  then show ?thesis by (simp add: sched)
qed

text \<open>
  C3. Both flags start true. If there is at least one endpoint and every attempt on every
  endpoint is RateLimited, the aggregate failure has \<open>isRateLimited = true\<close> and
  \<open>isCapacityError = false\<close>; if every attempt is CapacityUnavailable, so that every endpoint
  uses up its retries, it has \<open>isCapacityError = true\<close> and \<open>isRateLimited = false\<close>. In
  general, whenever the loops end in the aggregate failure, \<open>isRateLimited\<close> says that every
  attempt made came back 429 and \<open>isCapacityError\<close> that every attempt came back 503: one
  attempt of another kind clears the flag.
\<close>

theorem aggregate_flags:
  "allRateLimited initialState \<and> allCapacity initialState
   \<and> (urls \<noteq> [] \<and> (\<forall>h. \<forall>u \<in> set urls. classify (attemptGeneration (net env h u)) = RateLimited)
        \<longrightarrow> \<not> success (fst (executeRequest env maxRetries baseDelay urls))
          \<and> isRateLimited (fst (executeRequest env maxRetries baseDelay urls)) = Some True
          \<and> isCapacityError (fst (executeRequest env maxRetries baseDelay urls)) = Some False)
   \<and> (urls \<noteq> [] \<and> (\<forall>h. \<forall>u \<in> set urls. classify (attemptGeneration (net env h u)) = CapacityUnavailable)
        \<longrightarrow> \<not> success (fst (executeRequest env maxRetries baseDelay urls))
          \<and> isCapacityError (fst (executeRequest env maxRetries baseDelay urls)) = Some True
          \<and> isRateLimited (fst (executeRequest env maxRetries baseDelay urls)) = Some False)
   \<and> (fst (endpointLoop env maxRetries baseDelay urls initialState) = None
        \<longrightarrow> isRateLimited (fst (executeRequest env maxRetries baseDelay urls))
              = Some (\<forall>st \<in> set (attemptStatuses (trace (snd (executeRequest env maxRetries baseDelay urls)))). st = 429)
          \<and> isCapacityError (fst (executeRequest env maxRetries baseDelay urls))
              = Some (\<forall>st \<in> set (attemptStatuses (trace (snd (executeRequest env maxRetries baseDelay urls)))). st = 503))"
proof (intro conjI impI)
  show "allRateLimited initialState" "allCapacity initialState"
    by (simp_all add: initialState_def)
next
  assume "urls \<noteq> [] \<and> (\<forall>h. \<forall>u \<in> set urls. classify (attemptGeneration (net env h u)) = RateLimited)"
  then have ne: "urls \<noteq> []"
    and all: "\<forall>h. \<forall>u \<in> set urls. classify (attemptGeneration (net env h u)) = RateLimited"
    by simp_all
  from endpointLoop_all_rateLimited [OF all, of maxRetries baseDelay initialState] ne
  obtain s' where s': "endpointLoop env maxRetries baseDelay urls initialState = (None, s')"
    "allRateLimited s'" "\<not> allCapacity s'"
    by (auto simp: initialState_def)
  then show "\<not> success (fst (executeRequest env maxRetries baseDelay urls))"
    "isRateLimited (fst (executeRequest env maxRetries baseDelay urls)) = Some True"
    "isCapacityError (fst (executeRequest env maxRetries baseDelay urls)) = Some False"
    by (simp_all add: executeRequest_def failure_def)
next
  assume "urls \<noteq> [] \<and> (\<forall>h. \<forall>u \<in> set urls. classify (attemptGeneration (net env h u)) = CapacityUnavailable)"
  then have ne: "urls \<noteq> []"
    and all: "\<forall>h. \<forall>u \<in> set urls. classify (attemptGeneration (net env h u)) = CapacityUnavailable"
    by simp_all
  from endpointLoop_all_capacity [OF all, of maxRetries baseDelay initialState] ne
  obtain s' where s': "endpointLoop env maxRetries baseDelay urls initialState = (None, s')"
    "allCapacity s'" "\<not> allRateLimited s'"
    by (auto simp: initialState_def)
  then show "\<not> success (fst (executeRequest env maxRetries baseDelay urls))"
    "isCapacityError (fst (executeRequest env maxRetries baseDelay urls)) = Some True"
    "isRateLimited (fst (executeRequest env maxRetries baseDelay urls)) = Some False"
    by (simp_all add: executeRequest_def failure_def)
next
  assume none: "fst (endpointLoop env maxRetries baseDelay urls initialState) = None"
  then obtain s' where s': "endpointLoop env maxRetries baseDelay urls initialState = (None, s')"
    by (cases "endpointLoop env maxRetries baseDelay urls initialState") auto
  from endpointLoop_flagsAgree [OF flagsAgree_initial, of env maxRetries baseDelay urls] s'
  have "flagsAgree s'" by simp
  with s' show "isRateLimited (fst (executeRequest env maxRetries baseDelay urls))
              = Some (\<forall>st \<in> set (attemptStatuses (trace (snd (executeRequest env maxRetries baseDelay urls)))). st = 429)"
    "isCapacityError (fst (executeRequest env maxRetries baseDelay urls))
              = Some (\<forall>st \<in> set (attemptStatuses (trace (snd (executeRequest env maxRetries baseDelay urls)))). st = 503)"
    by (simp_all add: executeRequest_def failure_def flagsAgree_def)
qed

theorem aggregate_flags_witness:
  "isRateLimited (fst (generateImage envAllRateLimited)) = Some True
   \<and> isCapacityError (fst (generateImage envAllRateLimited)) = Some False
   \<and> isCapacityError (fst (generateImage envAllBusy)) = Some True
   \<and> isRateLimited (fst (generateImage envAllBusy)) = Some False
   \<and> \<not> success (fst (generateImage envAllBusy))"
proof -
  have r: "CLOUDCODE_FALLBACK_URLS \<noteq> []
      \<and> (\<forall>h. \<forall>u \<in> set CLOUDCODE_FALLBACK_URLS.
            classify (attemptGeneration (net envAllRateLimited h u)) = RateLimited)"
    by (simp add: CLOUDCODE_FALLBACK_URLS_def envAllRateLimited_def classify_def failure_def)
  have c: "CLOUDCODE_FALLBACK_URLS \<noteq> []
      \<and> (\<forall>h. \<forall>u \<in> set CLOUDCODE_FALLBACK_URLS.
            classify (attemptGeneration (net envAllBusy h u)) = CapacityUnavailable)"
    by (simp add: CLOUDCODE_FALLBACK_URLS_def envAllBusy_def classify_def failure_def)
  from aggregate_flags [where urls = CLOUDCODE_FALLBACK_URLS and env = envAllRateLimited
      and maxRetries = CAPACITY_RETRY_COUNT and baseDelay = CAPACITY_RETRY_BASE_DELAY_MS] r
  have 1: "isRateLimited (fst (generateImage envAllRateLimited)) = Some True
      \<and> isCapacityError (fst (generateImage envAllRateLimited)) = Some False"
    unfolding generateImage_def by blast
  from aggregate_flags [where urls = CLOUDCODE_FALLBACK_URLS and env = envAllBusy
      and maxRetries = CAPACITY_RETRY_COUNT and baseDelay = CAPACITY_RETRY_BASE_DELAY_MS] c
  have 2: "isCapacityError (fst (generateImage envAllBusy)) = Some True
      \<and> isRateLimited (fst (generateImage envAllBusy)) = Some False
      \<and> \<not> success (fst (generateImage envAllBusy))"
    unfolding generateImage_def by blast
  from 1 2 show ?thesis by simp
qed

text \<open>
  C7. A RateLimited attempt, at any retry, ends the retry loop with that attempt as its last
  event, and the endpoint loop goes on with the next endpoint, whose first event is an attempt,
  with no sleep before it. An attempt that is a timeout or another error, at any retry, makes
  the retry loop return the failure of that attempt; the endpoint loop and the executor return
  it without another event. So when the first attempt of the call is of that class it is the
  only event: no other endpoint is tried. A 429 response is RateLimited; an aborted fetch, a
  thrown error, an ok response without image, and a response with a status other than 429 and
  503 are in the last class.
\<close>

theorem failure_class_control_flow:
  "(retry \<le> maxRetries
      \<and> classify (respond env (beforeAttempt baseDelay retry s) epA) = RateLimited \<longrightarrow>
      retryLoop env maxRetries baseDelay epA retry s =
        (None,
         (beforeAttempt baseDelay retry s)
           \<lparr>trace := trace (beforeAttempt baseDelay retry s) @ [Attempt epA 429],
             allCapacity := False,
             lastError :=
               strOr (error (result (respond env (beforeAttempt baseDelay retry s) epA)))
                 ''Rate limited''\<rparr>))
   \<and> (retryLoop env maxRetries baseDelay epA 0 s = (None, s') \<longrightarrow>
        endpointLoop env maxRetries baseDelay (epA # rest) s
          = endpointLoop env maxRetries baseDelay rest s')
   \<and> (\<exists>ext. trace (snd (endpointLoop env maxRetries baseDelay (epB # rest) s'))
               = trace s' @ Attempt epB (status (respond env s' epB)) # ext)
   \<and> (classify (respond env s epA) = RateLimited \<longrightarrow>
        (\<exists>st ext. trace (snd (endpointLoop env maxRetries baseDelay (epA # epB # rest) s))
                    = trace s @ Attempt epA 429 # Attempt epB st # ext))
   \<and> (retry \<le> maxRetries
      \<and> classify (respond env (beforeAttempt baseDelay retry s) epA) = TimeoutOrOtherError \<longrightarrow>
      retryLoop env maxRetries baseDelay epA retry s =
        (Some (withReferenceErrors env
                 (result (respond env (beforeAttempt baseDelay retry s) epA))),
         (beforeAttempt baseDelay retry s)
           \<lparr>trace := trace (beforeAttempt baseDelay retry s)
                       @ [Attempt epA (status (respond env (beforeAttempt baseDelay retry s) epA))],
             allRateLimited := False, allCapacity := False\<rparr>))
   \<and> (retryLoop env maxRetries baseDelay epA 0 s = (Some r, s') \<longrightarrow>
        endpointLoop env maxRetries baseDelay (epA # rest) s = (Some r, s'))
   \<and> (endpointLoop env maxRetries baseDelay urls initialState = (Some r, s') \<longrightarrow>
        executeRequest env maxRetries baseDelay urls = (r, s'))
   \<and> (classify (respond env initialState epA) = TimeoutOrOtherError \<longrightarrow>
        fst (executeRequest env maxRetries baseDelay (epA # rest))
          = withReferenceErrors env (result (respond env initialState epA))
        \<and> trace (snd (executeRequest env maxRetries baseDelay (epA # rest)))
          = [Attempt epA (status (respond env initialState epA))])
   \<and> classify (attemptGeneration (HttpError 429 body)) = RateLimited
   \<and> classify (attemptGeneration Aborted) = TimeoutOrOtherError
   \<and> classify (attemptGeneration (Thrown msg)) = TimeoutOrOtherError
   \<and> classify (attemptGeneration (HttpOk (SseError msg))) = TimeoutOrOtherError
   \<and> (st \<noteq> 429 \<and> st \<noteq> 503 \<longrightarrow>
        classify (attemptGeneration (HttpError st body)) = TimeoutOrOtherError)"
proof (intro conjI impI)
  assume "retry \<le> maxRetries
      \<and> classify (respond env (beforeAttempt baseDelay retry s) epA) = RateLimited"
  then show "retryLoop env maxRetries baseDelay epA retry s =
        (None,
         (beforeAttempt baseDelay retry s)
           \<lparr>trace := trace (beforeAttempt baseDelay retry s) @ [Attempt epA 429],
             allCapacity := False,
             lastError :=
               strOr (error (result (respond env (beforeAttempt baseDelay retry s) epA)))
                 ''Rate limited''\<rparr>)"
    by (simp only: retryLoop_at_RateLimited)
next
  assume "retryLoop env maxRetries baseDelay epA 0 s = (None, s')"
  then show "endpointLoop env maxRetries baseDelay (epA # rest) s
          = endpointLoop env maxRetries baseDelay rest s'"
    by (rule endpointLoop_left)
next
  show "\<exists>ext. trace (snd (endpointLoop env maxRetries baseDelay (epB # rest) s'))
               = trace s' @ Attempt epB (status (respond env s' epB)) # ext"
    by (rule endpointLoop_first_event)
next
  assume rl: "classify (respond env s epA) = RateLimited"
  let ?s1 = "s\<lparr>trace := trace s @ [Attempt epA 429], allCapacity := False,
             lastError := strOr (error (result (respond env s epA))) ''Rate limited''\<rparr>"
  from endpointLoop_first_event [of env maxRetries baseDelay epB rest ?s1] obtain ext where
    "trace (snd (endpointLoop env maxRetries baseDelay (epB # rest) ?s1))
       = trace ?s1 @ Attempt epB (status (respond env ?s1 epB)) # ext"
    by blast
  then have "trace (snd (endpointLoop env maxRetries baseDelay (epA # epB # rest) s))
               = trace s @ Attempt epA 429 # Attempt epB (status (respond env ?s1 epB)) # ext"
    by (simp add: endpointLoop_rateLimited [OF rl] del: endpointLoop.simps)
  then show "\<exists>st ext. trace (snd (endpointLoop env maxRetries baseDelay (epA # epB # rest) s))
                    = trace s @ Attempt epA 429 # Attempt epB st # ext"
    by blast
next
  assume "retry \<le> maxRetries
      \<and> classify (respond env (beforeAttempt baseDelay retry s) epA) = TimeoutOrOtherError"
  then show "retryLoop env maxRetries baseDelay epA retry s =
        (Some (withReferenceErrors env
                 (result (respond env (beforeAttempt baseDelay retry s) epA))),
         (beforeAttempt baseDelay retry s)
           \<lparr>trace := trace (beforeAttempt baseDelay retry s)
                       @ [Attempt epA (status (respond env (beforeAttempt baseDelay retry s) epA))],
             allRateLimited := False, allCapacity := False\<rparr>)"
    by (simp only: retryLoop_at_Other)
next
  assume "retryLoop env maxRetries baseDelay epA 0 s = (Some r, s')"
  then show "endpointLoop env maxRetries baseDelay (epA # rest) s = (Some r, s')"
    by (rule endpointLoop_returned)
next
  assume "endpointLoop env maxRetries baseDelay urls initialState = (Some r, s')"
  then show "executeRequest env maxRetries baseDelay urls = (r, s')"
    by (simp add: executeRequest_def)
next
  assume o: "classify (respond env initialState epA) = TimeoutOrOtherError"
  have run: "executeRequest env maxRetries baseDelay (epA # rest) =
     (withReferenceErrors env (result (respond env initialState epA)),
      initialState\<lparr>trace := trace initialState @ [Attempt epA (status (respond env initialState epA))],
        allRateLimited := False, allCapacity := False\<rparr>)"
    by (simp add: executeRequest_def endpointLoop_other [OF o] del: endpointLoop.simps)
  show "fst (executeRequest env maxRetries baseDelay (epA # rest))
          = withReferenceErrors env (result (respond env initialState epA))"
    by (simp add: run)
  have "trace initialState = []" by (simp add: initialState_def)
  then show "trace (snd (executeRequest env maxRetries baseDelay (epA # rest)))
          = [Attempt epA (status (respond env initialState epA))]"
    by (simp add: run)
next
  show "classify (attemptGeneration (HttpError 429 body)) = RateLimited"
    by (simp add: classify_def failure_def)
  show "classify (attemptGeneration Aborted) = TimeoutOrOtherError"
    by (simp add: classify_def failure_def)
  show "classify (attemptGeneration (Thrown msg)) = TimeoutOrOtherError"
    by (simp add: classify_def failure_def)
  show "classify (attemptGeneration (HttpOk (SseError msg))) = TimeoutOrOtherError"
    by (simp add: classify_def failure_def)
next
  assume "st \<noteq> 429 \<and> st \<noteq> 503"
  then show "classify (attemptGeneration (HttpError st body)) = TimeoutOrOtherError"
    by (simp add: classify_def failure_def)
qed

theorem failure_class_control_flow_witness:
  "(\<exists>st ext. trace (snd (endpointLoop envE1limited 3 3000 [''E1'', ''E2''] initialState))
                = Attempt ''E1'' 429 # Attempt ''E2'' st # ext)
   \<and> trace (snd (executeRequest envE1limited 3 3000 [''E1'', ''E2'']))
       = [Attempt ''E1'' 429, Attempt ''E2'' 200]
   \<and> success (fst (executeRequest envE1limited 3 3000 [''E1'', ''E2'']))
   \<and> trace (snd (executeRequest envE1broken 3 3000 [''E1'', ''E2''])) = [Attempt ''E1'' 400]
   \<and> \<not> success (fst (executeRequest envE1broken 3 3000 [''E1'', ''E2'']))
   \<and> error (fst (executeRequest envE1broken 3 3000 [''E1'', ''E2'']))
       = Some ''HTTP 400: bad request''"
proof -
  have rl: "classify (respond envE1limited initialState ''E1'') = RateLimited"
    by code_simp
  have ot: "classify (respond envE1broken initialState ''E1'') = TimeoutOrOtherError"
    by code_simp
  have t0: "trace initialState = []" by code_simp
  from failure_class_control_flow [where env = envE1limited and s = initialState
      and epA = "''E1''" and epB = "''E2''" and maxRetries = 3 and baseDelay = 3000
      and rest = "[]"] rl
  have "\<exists>st ext. trace (snd (endpointLoop envE1limited 3 3000 [''E1'', ''E2''] initialState))
                = trace initialState @ Attempt ''E1'' 429 # Attempt ''E2'' st # ext"
    by blast
  then have 0: "\<exists>st ext. trace (snd (endpointLoop envE1limited 3 3000 [''E1'', ''E2''] initialState))
                = Attempt ''E1'' 429 # Attempt ''E2'' st # ext"
    by (simp add: t0)
  have 1: "trace (snd (executeRequest envE1limited 3 3000 [''E1'', ''E2'']))
     = [Attempt ''E1'' 429, Attempt ''E2'' 200]"
    by code_simp
  have 2: "success (fst (executeRequest envE1limited 3 3000 [''E1'', ''E2'']))"
    by code_simp
  from failure_class_control_flow [where env = envE1broken and s = initialState
      and epA = "''E1''" and maxRetries = 3 and baseDelay = 3000 and rest = "[''E2'']"] ot
  have fin: "fst (executeRequest envE1broken 3 3000 [''E1'', ''E2''])
          = withReferenceErrors envE1broken (result (respond envE1broken initialState ''E1''))"
    and tr: "trace (snd (executeRequest envE1broken 3 3000 [''E1'', ''E2'']))
          = [Attempt ''E1'' (status (respond envE1broken initialState ''E1''))]"
    by blast+
  have st: "status (respond envE1broken initialState ''E1'') = 400" by code_simp
  have 4: "\<not> success (withReferenceErrors envE1broken (result (respond envE1broken initialState ''E1'')))"
    by code_simp
  have 5: "error (withReferenceErrors envE1broken (result (respond envE1broken initialState ''E1'')))
       = Some ''HTTP 400: bad request''"
    by code_simp
  from 0 1 2 tr st 4 5 show ?thesis by (simp add: fin)
qed

end
